theory Spec2Isabelle
  imports Complex_Main
begin

section \<open>The weapon-detection Streamlit script (weapondetection.py)\<close>

text \<open>
  The script is module-level Python that Streamlit re-executes from top to bottom on
  every user interaction. One execution is modelled as a function from
  \<^item> the values the widgets return in that execution (record \<open>ui\<close>),
  \<^item> the behaviour of the world outside the script (record \<open>env\<close>: the detector loaded
    from the weights file, the video sources, the clock, the codecs), and
  \<^item> the state that outlives one execution (record \<open>process\<close>: the resource cache of
    \<open>st.cache_resource\<close>)
  to the sequence of output calls and external effects the execution performs
  (\<open>event list\<close>), in program order. Drawing an input widget is not an event: a
  widget appears in the model as the value it returns.

  A \<open>while\<close> loop over a capture may run forever (a webcam never runs out of frames),
  so the loops are partial functions into \<open>option\<close>: \<open>None\<close> is a loop that never
  exits. Python exceptions raised by the script's own subscripts are values of
  \<open>py_error\<close>. Calls into ultralytics, OpenCV, PIL and Streamlit are taken at their
  documented contract: \<open>model(x, conf=c, max_det=k)\<close> returns one result for one input
  (the script reads \<open>results[0]\<close>), and every class id a result reports is a key of
  \<open>model.names\<close>.
\<close>

subsection \<open>Data\<close>

type_synonym bytes = "nat list"

text \<open>
  A decoded picture (a PIL image or a numpy frame): \<open>shape0\<close> rows, \<open>shape1\<close> columns
  (for a PIL image \<open>size = (shape1, shape0)\<close>), the pixel data as an opaque number, and
  whether the channel axis has been reversed by the slice \<open>[:, :, ::-1]\<close>.
\<close>

record image =
  shape0 :: nat
  shape1 :: nat
  pixels :: nat
  reversed :: bool

definition reverse_channels :: "image \<Rightarrow> image" where
  "reverse_channels img = img\<lparr>reversed := \<not> reversed img\<rparr>"

text \<open>One detected box: its class id (\<open>int(box.cls)\<close>) and its confidence score.\<close>

record box =
  cls :: nat
  score :: real

text \<open>
  One element of what the detector returns: the boxes, the \<open>speed\<close> attribute (\<open>None\<close>
  when it is not a dict, otherwise the dict), and the annotated picture that
  \<open>plot()\<close> draws.
\<close>

record result =
  boxes :: "box list"
  speed :: "(string \<rightharpoonup> real) option"
  plot :: image

datatype py_error = IndexError | KeyError | TypeError

text \<open>What \<open>cv2.VideoCapture\<close> is opened on: a device index or a file name / URL.\<close>

datatype source = Camera int | Location string

text \<open>A capture handle: the source it was opened on and how many reads it has served.\<close>

record capture =
  src :: source
  pos :: nat

text \<open>
  The world outside the script. \<open>is_open s n\<close> is what \<open>isOpened()\<close> answers on a
  capture of source \<open>s\<close> after \<open>n\<close> reads, \<open>grab s n\<close> what the read number \<open>n\<close>
  returns (\<open>None\<close> for \<open>ret = False\<close>), \<open>clock n\<close> the value of the call number
  \<open>n\<close> of \<open>time.time()\<close>.
\<close>

record env =
  predict :: "image \<Rightarrow> real \<Rightarrow> int \<Rightarrow> result"
  names :: "nat \<Rightarrow> string"
  image_open :: "bytes \<Rightarrow> image"
  imencode :: "string \<Rightarrow> image \<Rightarrow> bytes"
  tempfile_name :: string
  is_open :: "source \<Rightarrow> nat \<Rightarrow> bool"
  grab :: "source \<Rightarrow> nat \<Rightarrow> image option"
  clock :: "nat \<Rightarrow> real"

text \<open>
  The values the widgets return in one execution. A field carries the name of the
  variable the script assigns the widget to; where the script later overwrites that
  variable, the field is named after the widget's label instead (\<open>take_snapshot\<close> for
  the button assigned to \<open>snapshot_button\<close>, \<open>save_processed_video\<close> for the radio that
  overwrites \<open>save_option\<close>), and the two \<open>start_button\<close>s are told apart by their branch.
\<close>

record ui =
  option :: string
  MAX_BOXES_TO_DRAW :: int
  DEVICES :: string
  MIN_SCORE_THRES :: real
  save_option :: string
  uploaded_image :: "bytes option"
  uploaded_video :: "bytes option"
  take_snapshot :: bool
  auto_snapshot :: bool
  snapshot_interval :: int
  start_button_webcam :: bool
  start_button_ip :: bool
  ip_url :: string
  save_processed_video :: string
  result_video_path :: string

text \<open>
  The choices the radio of line 22 offers; the widget returns one of them.
\<close>

definition input_types :: "string list" where
  "input_types = [''Upload Image'', ''Upload Video'', ''Livecam Detection'']"

text \<open>The text of an f-string, kept as the values it interpolates.\<close>

datatype message =
    Plain string
  | ImageDetails nat nat
  | ObjectsDetected nat
  | Classes string
  | Speed real real real
  | VideoFrame nat nat string
  | LiveFrame int nat nat nat string real real real
  | VideoSaved string

text \<open>The output calls and external effects of the script.\<close>

datatype event =
    Title string
  | SidebarTitle string
  | ModelTo nat string
  | ModelCall nat image real int
  | Write message
  | Img image
  | SidebarImage image string
  | DownloadButton string bytes string
  | TempWrite string bytes
  | Video string
  | CapOpen source
  | CapRelease source
  | Unlink string
  | Snapshot image
  | Subheader string
  | Warning string
  | Placeholder image string
  | WriterOpen string string int nat nat
  | WriterWrite image
  | WriterRelease
  | Success message

subsection \<open>The model loader\<close>

text \<open>
  \<open>st.cache_resource\<close> keeps, for the life of the process, the value the decorated
  function returned; \<open>load_model\<close> takes no argument, so the cache holds at most one
  entry. A model object is identified by the number of \<open>YOLO(...)\<close> constructions that
  preceded its own.
\<close>

record process =
  cache_resource :: "nat option"
  constructed :: nat

definition YOLO :: "process \<Rightarrow> nat \<times> process" where
  "YOLO p = (constructed p, p\<lparr>constructed := Suc (constructed p)\<rparr>)"

definition load_model :: "process \<Rightarrow> nat \<times> process" where
  "load_model p =
     (case cache_resource p of
        Some m \<Rightarrow> (m, p)
      | None \<Rightarrow> (let (m, p') = YOLO p in (m, p'\<lparr>cache_resource := Some m\<rparr>)))"

text \<open>A process that has just started: nothing cached, nothing constructed.\<close>

definition fresh :: process where
  "fresh = \<lparr>cache_resource = None, constructed = 0\<rparr>"

text \<open>The model objects that \<open>n\<close> successive calls of \<open>load_model\<close> return.\<close>

fun load_models :: "nat \<Rightarrow> process \<Rightarrow> nat list \<times> process" where
  "load_models 0 p = ([], p)"
| "load_models (Suc n) p =
     (let (m, p') = load_model p; (ms, p'') = load_models n p' in (m # ms, p''))"

subsection \<open>Python operations the script uses\<close>

text \<open>\<open>sep.join(xs)\<close>.\<close>

fun join :: "string \<Rightarrow> string list \<Rightarrow> string" where
  "join sep [] = []"
| "join sep [x] = x"
| "join sep (x # y # ys) = x @ sep @ join sep (y # ys)"

text \<open>\<open>xs[:n]\<close>: a negative bound counts from the end.\<close>

definition slice_to :: "'a list \<Rightarrow> int \<Rightarrow> 'a list" where
  "slice_to xs n = (if n < 0 then take (length xs - nat (- n)) xs else take (nat n) xs)"

text \<open>\<open>xs[i]\<close> for a literal index \<open>i \<ge> 0\<close>: IndexError past the end.\<close>

definition index :: "'a list \<Rightarrow> nat \<Rightarrow> py_error + 'a" where
  "index xs i = (if i < length xs then Inr (xs ! i) else Inl IndexError)"

text \<open>\<open>d[k]\<close> on the \<open>speed\<close> attribute: TypeError when it is no dict, KeyError when the key is missing.\<close>

definition getitem :: "(string \<rightharpoonup> real) option \<Rightarrow> string \<Rightarrow> py_error + real" where
  "getitem d k =
     (case d of
        None \<Rightarrow> Inl TypeError
      | Some f \<Rightarrow> (case f k of None \<Rightarrow> Inl KeyError | Some v \<Rightarrow> Inr v))"

text \<open>\<open>d.get(k, default)\<close>.\<close>

definition dict_get :: "(string \<rightharpoonup> real) \<Rightarrow> string \<Rightarrow> real \<Rightarrow> real" where
  "dict_get d k dflt = (case d k of None \<Rightarrow> dflt | Some v \<Rightarrow> v)"

text \<open>\<open>cap.isOpened()\<close> and \<open>cap.read()\<close>.\<close>

definition cap_isOpened :: "env \<Rightarrow> capture \<Rightarrow> bool" where
  "cap_isOpened e c = is_open e (src c) (pos c)"

definition cap_read :: "env \<Rightarrow> capture \<Rightarrow> image option \<times> capture" where
  "cap_read e c = (grab e (src c) (pos c), c\<lparr>pos := Suc (pos c)\<rparr>)"

subsection \<open>Detection and display (lines 33-57)\<close>

text \<open>\<open>model(x, conf=c, max_det=k)[0]\<close>: the result, and the call as an event.\<close>

definition call_model :: "env \<Rightarrow> nat \<Rightarrow> image \<Rightarrow> real \<Rightarrow> int \<Rightarrow> result \<times> event list" where
  "call_model e model x c k = (predict e x c k, [ModelCall model x c k])"

definition process_image :: "env \<Rightarrow> ui \<Rightarrow> nat \<Rightarrow> image \<Rightarrow> result \<times> event list" where
  "process_image e u model img =
     call_model e model img (MIN_SCORE_THRES u) (MAX_BOXES_TO_DRAW u)"

definition process_video_frame :: "env \<Rightarrow> ui \<Rightarrow> nat \<Rightarrow> image \<Rightarrow> result \<times> event list" where
  "process_video_frame e u model frame =
     call_model e model frame (MIN_SCORE_THRES u) (MAX_BOXES_TO_DRAW u)"

text \<open>\<open>[model.names[int(cls)] for cls in result.boxes.cls]\<close>.\<close>

definition class_names :: "env \<Rightarrow> result \<Rightarrow> string list" where
  "class_names e r = map (\<lambda>b. names e (cls b)) (boxes r)"

definition display_results :: "env \<Rightarrow> result \<Rightarrow> image \<Rightarrow> py_error + event list" where
  "display_results e result original_image =
     (let written =
            [Write (Plain ''Original Image''), Img original_image,
             Write (Plain ''Detected Objects''), Img (plot result),
             Write (ImageDetails (shape0 original_image) (shape1 original_image)),
             Write (ObjectsDetected (length (boxes result))),
             Write (Classes (join '', '' (class_names e result)))]
      in case getitem (speed result) ''preprocess'' of
           Inl err \<Rightarrow> Inl err
         | Inr preprocess \<Rightarrow>
             (case getitem (speed result) ''inference'' of
                Inl err \<Rightarrow> Inl err
              | Inr inference \<Rightarrow>
                  (case getitem (speed result) ''postprocess'' of
                     Inl err \<Rightarrow> Inl err
                   | Inr postprocess \<Rightarrow>
                       Inr (written @ [Write (Speed preprocess inference postprocess)]))))"

subsection \<open>Image upload (lines 60-70)\<close>

definition upload_image_branch :: "env \<Rightarrow> ui \<Rightarrow> nat \<Rightarrow> py_error + event list" where
  "upload_image_branch e u model =
     (case uploaded_image u of
        None \<Rightarrow> Inr []
      | Some file \<Rightarrow>
          (let img = image_open e file;
               (result, called) = process_image e u model img
           in case display_results e result img of
                Inl err \<Rightarrow> Inl err
              | Inr displayed \<Rightarrow>
                  Inr (called @ displayed @
                       (if save_option u = ''Yes''
                        then [SidebarImage (plot result) ''Detected Image'',
                              DownloadButton ''Download Result Image''
                                (imencode e ''.jpg'' (plot result)) ''result_image.jpg'']
                        else []))))"

subsection \<open>Video upload (lines 73-117)\<close>

text \<open>
  The variables the loop changes: the capture, the number of \<open>time.time()\<close> calls made
  so far, \<open>last_snapshot_time\<close>, \<open>snapshot_button\<close>, and the events emitted so far.
\<close>

record upload_state =
  cap :: capture
  time_calls :: nat
  last_snapshot_time :: real
  snapshot_button :: bool
  out :: "event list"

text \<open>One iteration whose read returned \<open>frame\<close> and left the capture as \<open>c\<close> (lines 102-114).\<close>

definition upload_iteration ::
  "env \<Rightarrow> ui \<Rightarrow> nat \<Rightarrow> image \<Rightarrow> capture \<Rightarrow> upload_state \<Rightarrow> upload_state" where
  "upload_iteration e u model frame c s =
     (let (result, called) = process_video_frame e u model frame;
          processed_frame = plot result;
          current_time = clock e (time_calls s);
          snap = (snapshot_button s \<or>
                  (auto_snapshot u \<and>
                   current_time - last_snapshot_time s \<ge> of_int (snapshot_interval u)))
      in s\<lparr>cap := c,
            time_calls := Suc (time_calls s),
            last_snapshot_time := (if snap then current_time else last_snapshot_time s),
            snapshot_button := (if snap then False else snapshot_button s),
            out := out s @ called @
                   (if snap then [Snapshot processed_frame] else []) @
                   [Write (VideoFrame (pos c) (length (boxes result))
                             (join '', '' (class_names e result)))]\<rparr>)"

partial_function (option) upload_video_loop ::
  "env \<Rightarrow> ui \<Rightarrow> nat \<Rightarrow> upload_state \<Rightarrow> upload_state option" where
  "upload_video_loop e u model s =
     (if cap_isOpened e (cap s) then
        (case cap_read e (cap s) of
           (None, c) \<Rightarrow> Some (s\<lparr>cap := c\<rparr>)
         | (Some frame, c) \<Rightarrow> upload_video_loop e u model (upload_iteration e u model frame c s))
      else Some s)"

definition upload_video_branch :: "env \<Rightarrow> ui \<Rightarrow> nat \<Rightarrow> event list option" where
  "upload_video_branch e u model =
     (case uploaded_video u of
        None \<Rightarrow> Some []
      | Some content \<Rightarrow>
          (let tfile = tempfile_name e;
               s0 = \<lparr>cap = \<lparr>src = Location tfile, pos = 0\<rparr>,
                     time_calls = 1,
                     last_snapshot_time = clock e 0,
                     snapshot_button = take_snapshot u,
                     out = [TempWrite tfile content, Video tfile, CapOpen (Location tfile)]\<rparr>
           in case upload_video_loop e u model s0 of
                None \<Rightarrow> None
              | Some s \<Rightarrow> Some (out s @ [CapRelease (src (cap s)), Unlink tfile])))"

subsection \<open>Webcam and IP camera (lines 124-251)\<close>

text \<open>
  The two loops (lines 139-173 and 202-236) are the same text up to the warning they
  show when a read fails and the caption under the picture; \<open>live_loop\<close> takes these
  two strings as parameters. The variables the loop changes: the capture, the list
  \<open>processed_frames\<close>, and the events emitted so far.
\<close>

record live_state =
  live_cap :: capture
  processed_frames :: "image list"
  shown :: "event list"

definition default_speed :: "string \<rightharpoonup> real" where
  "default_speed = [''inference'' \<mapsto> 0, ''preprocess'' \<mapsto> 0, ''postprocess'' \<mapsto> 0]"

text \<open>
  The \<open>for box in ...\<close> loop that appends \<open>model.names[int(box.cls)]\<close> to
  \<open>detection_text\<close>.
\<close>

fun collect_labels :: "env \<Rightarrow> string list \<Rightarrow> box list \<Rightarrow> string list" where
  "collect_labels e detection_text [] = detection_text"
| "collect_labels e detection_text (b # bs) =
     collect_labels e (detection_text @ [names e (cls b)]) bs"

text \<open>
  One iteration whose read returned \<open>frame\<close> and left the capture as \<open>c\<close>
  (lines 145-173 and 208-236).
\<close>

definition live_iteration ::
  "string \<Rightarrow> env \<Rightarrow> ui \<Rightarrow> nat \<Rightarrow> image \<Rightarrow> capture \<Rightarrow> live_state \<Rightarrow> live_state" where
  "live_iteration caption e u model frame c s =
     (let (result, called) =
            call_model e model frame (MIN_SCORE_THRES u) (MAX_BOXES_TO_DRAW u);
          processed_frame = plot result;
          frames = processed_frames s @ [processed_frame];
          speed_info = (case speed result of Some d \<Rightarrow> d | None \<Rightarrow> default_speed);
          inference_time = dict_get speed_info ''inference'' 0;
          preprocess_time = dict_get speed_info ''preprocess'' 0;
          postprocess_time = dict_get speed_info ''postprocess'' 0;
          detections = boxes result;
          detection_text = collect_labels e [] (slice_to detections (MAX_BOXES_TO_DRAW u));
          detection_count = length detection_text;
          detection_text_str =
            (if detection_text \<noteq> [] then join '', '' detection_text else ''No detections'')
      in s\<lparr>live_cap := c,
            processed_frames := frames,
            shown := shown s @ called @
              [Placeholder (reverse_channels processed_frame) caption,
               Write (LiveFrame (int (length frames) - 1) (shape0 frame) (shape1 frame)
                        detection_count detection_text_str
                        preprocess_time inference_time postprocess_time)]\<rparr>)"

partial_function (option) live_loop ::
  "string \<Rightarrow> string \<Rightarrow> env \<Rightarrow> ui \<Rightarrow> nat \<Rightarrow> live_state \<Rightarrow> live_state option" where
  "live_loop warning caption e u model s =
     (if cap_isOpened e (live_cap s) then
        (case cap_read e (live_cap s) of
           (None, c) \<Rightarrow> Some (s\<lparr>live_cap := c, shown := shown s @ [Warning warning]\<rparr>)
         | (Some frame, c) \<Rightarrow>
             live_loop warning caption e u model (live_iteration caption e u model frame c s))
      else Some s)"

definition webcam_warning :: string where
  "webcam_warning = ''Failed to read from the webcam. Check if it's connected.''"

definition ip_camera_warning :: string where
  "ip_camera_warning = ''Failed to read from the IP Camera. Check if the URL is correct.''"

definition webcam_loop :: "env \<Rightarrow> ui \<Rightarrow> nat \<Rightarrow> live_state \<Rightarrow> live_state option" where
  "webcam_loop = live_loop webcam_warning ''Webcam Detection''"

definition ip_camera_loop :: "env \<Rightarrow> ui \<Rightarrow> nat \<Rightarrow> live_state \<Rightarrow> live_state option" where
  "ip_camera_loop = live_loop ip_camera_warning ''IP Camera Detection''"

text \<open>The \<open>for frame in processed_frames: out.write(frame)\<close> loop.\<close>

fun write_frames :: "image list \<Rightarrow> event list" where
  "write_frames [] = []"
| "write_frames (frame # rest) = WriterWrite frame # write_frames rest"

text \<open>
  Saving the processed video (lines 178-185 and 241-248, the same text). The frame
  size is read from \<open>processed_frames[0]\<close>, once for each of the two dimensions.
\<close>

definition save_video :: "ui \<Rightarrow> image list \<Rightarrow> py_error + event list" where
  "save_video u frames =
     (if save_processed_video u = ''Yes'' \<and> frames \<noteq> [] then
        (case index frames 0 of
           Inl err \<Rightarrow> Inl err
         | Inr first_w \<Rightarrow>
             (case index frames 0 of
                Inl err \<Rightarrow> Inl err
              | Inr first_h \<Rightarrow>
                  Inr ([WriterOpen (result_video_path u) ''mp4v'' 20
                          (shape1 first_w) (shape0 first_h)] @
                       write_frames frames @
                       [WriterRelease, Success (VideoSaved (result_video_path u))])))
      else Inr [])"

text \<open>What follows a loop that has exited: \<open>cap.release()\<close>, then the save path.\<close>

definition after_loop :: "ui \<Rightarrow> live_state \<Rightarrow> py_error + event list" where
  "after_loop u s =
     (case save_video u (processed_frames s) of
        Inl err \<Rightarrow> Inl err
      | Inr saved \<Rightarrow> Inr (shown s @ [CapRelease (src (live_cap s))] @ saved))"

definition webcam_branch :: "env \<Rightarrow> ui \<Rightarrow> nat \<Rightarrow> (py_error + event list) option" where
  "webcam_branch e u model =
     (if start_button_webcam u then
        (let s0 = \<lparr>live_cap = \<lparr>src = Camera 0, pos = 0\<rparr>,
                   processed_frames = [],
                   shown = [CapOpen (Camera 0), Subheader ''Detection Frame Detail Results'']\<rparr>
         in case webcam_loop e u model s0 of
              None \<Rightarrow> None
            | Some s \<Rightarrow> Some (after_loop u s))
      else Some (Inr []))"

definition ip_camera_branch :: "env \<Rightarrow> ui \<Rightarrow> nat \<Rightarrow> (py_error + event list) option" where
  "ip_camera_branch e u model =
     (if start_button_ip u then
        (if ip_url u \<noteq> [] then
           (let s0 = \<lparr>live_cap = \<lparr>src = Location (ip_url u), pos = 0\<rparr>,
                      processed_frames = [],
                      shown = [CapOpen (Location (ip_url u)),
                               Subheader ''Detection Frame Detail Results'']\<rparr>
            in case ip_camera_loop e u model s0 of
                 None \<Rightarrow> None
               | Some s \<Rightarrow> Some (after_loop u s))
         else Some (Inr []))
      else Some (Inr []))"

subsection \<open>The script\<close>

definition select_message :: string where
  "select_message = ''Select 'Webcam Detection' or 'IP Camera Detection' to start.''"

text \<open>The first \<open>if\<close>/\<open>elif\<close> chain (lines 60-117): no \<open>else\<close>.\<close>

definition upload_dispatch :: "env \<Rightarrow> ui \<Rightarrow> nat \<Rightarrow> (py_error + event list) option" where
  "upload_dispatch e u model =
     (if option u = ''Upload Image'' then Some (upload_image_branch e u model)
      else if option u = ''Upload Video'' then map_option Inr (upload_video_branch e u model)
      else Some (Inr []))"

text \<open>The second \<open>if\<close>/\<open>elif\<close>/\<open>else\<close> chain (lines 124-251).\<close>

definition camera_dispatch :: "env \<Rightarrow> ui \<Rightarrow> nat \<Rightarrow> (py_error + event list) option" where
  "camera_dispatch e u model =
     (if option u = ''Webcam Detection'' then webcam_branch e u model
      else if option u = ''IP Camera Detection'' then ip_camera_branch e u model
      else Some (Inr [Write (Plain select_message)]))"

text \<open>
  One execution of the script: the outcome (\<open>None\<close> when a loop never exits, \<open>Inl\<close> an
  uncaught exception, \<open>Inr\<close> the events of a completed execution) and the process
  state it leaves.
\<close>

definition script :: "env \<Rightarrow> ui \<Rightarrow> process \<Rightarrow> (py_error + event list) option \<times> process" where
  "script e u p =
     (let (model, p') = load_model p;
          sidebar = [Title ''YOLOv8 Objects Detection App'',
                     SidebarTitle ''Detection Options Config'',
                     ModelTo model (DEVICES u)]
      in (case upload_dispatch e u model of
            None \<Rightarrow> None
          | Some (Inl err) \<Rightarrow> Some (Inl err)
          | Some (Inr uploaded) \<Rightarrow>
              (case camera_dispatch e u model of
                 None \<Rightarrow> None
               | Some (Inl err) \<Rightarrow> Some (Inl err)
               | Some (Inr live) \<Rightarrow>
                   Some (Inr (sidebar @ uploaded @ [ModelTo model (DEVICES u)] @ live))),
          p'))"

subsection \<open>Vocabulary of the properties\<close>

text \<open>The capture after \<open>n\<close> further reads.\<close>

fun after_reads :: "env \<Rightarrow> nat \<Rightarrow> capture \<Rightarrow> capture" where
  "after_reads e 0 c = c"
| "after_reads e (Suc n) c = after_reads e n (snd (cap_read e c))"

text \<open>
  After \<open>n\<close> further reads the loop condition or the read fails: the capture reports
  closed, or the next read returns \<open>ret = False\<close>.
\<close>

definition exits_at :: "env \<Rightarrow> capture \<Rightarrow> nat \<Rightarrow> bool" where
  "exits_at e c n \<longleftrightarrow>
     \<not> cap_isOpened e (after_reads e n c) \<or> fst (cap_read e (after_reads e n c)) = None"

text \<open>The first \<open>n\<close> reads of a capture all happen and all return a frame.\<close>

definition reads_succeed :: "env \<Rightarrow> capture \<Rightarrow> nat \<Rightarrow> bool" where
  "reads_succeed e c n \<longleftrightarrow> (\<forall>i<n. \<not> exits_at e c i)"

text \<open>The frames that the first \<open>n\<close> reads of a capture return.\<close>

definition frames_read :: "env \<Rightarrow> capture \<Rightarrow> nat \<Rightarrow> image list" where
  "frames_read e c n = map (\<lambda>i. the (fst (cap_read e (after_reads e i c)))) [0..<n]"

text \<open>The annotated picture the script keeps for a frame.\<close>

definition annotate :: "env \<Rightarrow> ui \<Rightarrow> image \<Rightarrow> image" where
  "annotate e u frame = plot (predict e frame (MIN_SCORE_THRES u) (MAX_BOXES_TO_DRAW u))"

text \<open>Events that only an iteration of a video loop emits.\<close>

fun is_loop_event :: "event \<Rightarrow> bool" where
  "is_loop_event (ModelCall m x c k) = True"
| "is_loop_event (Snapshot x) = True"
| "is_loop_event (Placeholder x caption) = True"
| "is_loop_event (Warning w) = True"
| "is_loop_event (Write (VideoFrame n k labels)) = True"
| "is_loop_event (Write (LiveFrame i h w k labels t1 t2 t3)) = True"
| "is_loop_event other = False"

text \<open>Events that acquire or give back a resource: the temporary file, a capture.\<close>

fun is_resource_event :: "event \<Rightarrow> bool" where
  "is_resource_event (TempWrite name content) = True"
| "is_resource_event (CapOpen s) = True"
| "is_resource_event (CapRelease s) = True"
| "is_resource_event (Unlink name) = True"
| "is_resource_event other = False"

text \<open>Events of the video writer.\<close>

fun is_writer_event :: "event \<Rightarrow> bool" where
  "is_writer_event (WriterOpen path fourcc fps w h) = True"
| "is_writer_event (WriterWrite frame) = True"
| "is_writer_event WriterRelease = True"
| "is_writer_event other = False"

text \<open>
  A detector call passes the model object of this execution and the two sidebar
  values; any other event passes the test.
\<close>

fun passes_settings :: "ui \<Rightarrow> nat \<Rightarrow> event \<Rightarrow> bool" where
  "passes_settings u model (ModelCall m x c k) =
     (m = model \<and> c = MIN_SCORE_THRES u \<and> k = MAX_BOXES_TO_DRAW u)"
| "passes_settings u model other = True"

text \<open>
  The per-frame line of a live loop reports at most \<open>MAX_BOXES_TO_DRAW\<close> objects; any
  other event passes the test.
\<close>

fun count_within :: "ui \<Rightarrow> event \<Rightarrow> bool" where
  "count_within u (Write (LiveFrame i h w detection_count labels t1 t2 t3)) =
     (int detection_count \<le> MAX_BOXES_TO_DRAW u)"
| "count_within u other = True"

text \<open>
  What the script relies on from the detector: it keeps no box scored below \<open>conf\<close>
  and, for a bound \<open>max_det\<close> that is not negative, no more than \<open>max_det\<close> boxes.
\<close>

definition detector_contract :: "env \<Rightarrow> bool" where
  "detector_contract e \<longleftrightarrow>
     (\<forall>x c k. (\<forall>b \<in> set (boxes (predict e x c k)). c \<le> score b) \<and>
              (0 \<le> k \<longrightarrow> int (length (boxes (predict e x c k))) \<le> k))"

text \<open>
  The writer events of a saved video: the writer opened on the chosen path with fourcc
  \<open>mp4v\<close>, 20 frames per second and the size of the first frame, every frame written
  in order, the writer released.
\<close>

definition writer_events :: "ui \<Rightarrow> image list \<Rightarrow> event list" where
  "writer_events u frames =
     WriterOpen (result_video_path u) ''mp4v'' 20 (shape1 (hd frames)) (shape0 (hd frames)) #
     map WriterWrite frames @ [WriterRelease]"

subsection \<open>Sample inputs\<close>

definition sample_frame :: "nat \<Rightarrow> image" where
  "sample_frame n = \<lparr>shape0 = 480, shape1 = 640, pixels = n, reversed = False\<rparr>"

definition sample_boxes :: "box list" where
  "sample_boxes = [\<lparr>cls = 0, score = 9 / 10\<rparr>, \<lparr>cls = 1, score = 6 / 10\<rparr>,
                   \<lparr>cls = 0, score = 3 / 10\<rparr>]"

text \<open>
  A detector that keeps the boxes scored at least \<open>conf\<close>, at most \<open>max_det\<close> of them,
  and marks the picture it has drawn on; a source that delivers two frames and then
  fails to read.
\<close>

definition sample_predict :: "image \<Rightarrow> real \<Rightarrow> int \<Rightarrow> result" where
  "sample_predict x c k =
     \<lparr>boxes = take (nat k) (filter (\<lambda>b. c \<le> score b) sample_boxes),
      speed = Some default_speed,
      plot = x\<lparr>pixels := pixels x + 100\<rparr>\<rparr>"

definition two_frames :: env where
  "two_frames =
     \<lparr>predict = sample_predict,
      names = (\<lambda>i. if i = 0 then ''gun'' else ''knife''),
      image_open = (\<lambda>content. sample_frame (length content)),
      imencode = (\<lambda>ext img. [pixels img]),
      tempfile_name = ''/tmp/tmpvideo'',
      is_open = (\<lambda>s n. True),
      grab = (\<lambda>s n. if n < 2 then Some (sample_frame n) else None),
      clock = (\<lambda>n. of_nat n)\<rparr>"

text \<open>A source that is closed from the start, one whose first read fails, and one that never stops delivering.\<close>

definition closed_source :: env where
  "closed_source = two_frames\<lparr>is_open := (\<lambda>s n. False)\<rparr>"

definition no_frame :: env where
  "no_frame = two_frames\<lparr>grab := (\<lambda>s n. None)\<rparr>"

definition endless :: env where
  "endless = two_frames\<lparr>grab := (\<lambda>s n. Some (sample_frame n))\<rparr>"

text \<open>
  Widget values with every button pressed and every save option set to Yes; the input
  type is chosen by the argument.
\<close>

definition sample_ui :: "string \<Rightarrow> ui" where
  "sample_ui choice =
     \<lparr>option = choice,
      MAX_BOXES_TO_DRAW = 5,
      DEVICES = ''cpu'',
      MIN_SCORE_THRES = 2 / 5,
      save_option = ''Yes'',
      uploaded_image = Some [1, 2, 3],
      uploaded_video = Some [4, 5, 6],
      take_snapshot = False,
      auto_snapshot = False,
      snapshot_interval = 5,
      start_button_webcam = True,
      start_button_ip = True,
      ip_url = ''rtsp://camera'',
      save_processed_video = ''Yes'',
      result_video_path = ''result.mp4''\<rparr>"

text \<open>
  A state in which the upload loop may start, and one for the webcam and IP camera
  loops: a capture that has served no read, nothing emitted yet.
\<close>

definition upload_start :: upload_state where
  "upload_start =
     \<lparr>cap = \<lparr>src = Location ''/tmp/tmpvideo'', pos = 0\<rparr>, time_calls = 1,
      last_snapshot_time = 0, snapshot_button = False, out = []\<rparr>"

definition live_start :: live_state where
  "live_start = \<lparr>live_cap = \<lparr>src = Camera 0, pos = 0\<rparr>, processed_frames = [], shown = []\<rparr>"

text \<open>
  A detector that ignores both arguments and always reports the three sample boxes, and
  widget values that allow two boxes only.
\<close>

definition greedy :: env where
  "greedy = two_frames\<lparr>predict := (\<lambda>x c k. \<lparr>boxes = sample_boxes, speed = None, plot = x\<rparr>)\<rparr>"

definition two_boxes :: ui where
  "two_boxes = (sample_ui ''Livecam Detection'')\<lparr>MAX_BOXES_TO_DRAW := 2\<rparr>"

text \<open>
  The events of three sample executions: a camera branch on the detector that ignores
  its arguments,
  with two boxes allowed (a source, the caption and the warning of the branch as
  arguments), the video upload and the image upload on the two-frame source.
\<close>

definition live_run :: "source \<Rightarrow> string \<Rightarrow> string \<Rightarrow> event list" where
  "live_run sc caption warning =
     [CapOpen sc, Subheader ''Detection Frame Detail Results'',
      ModelCall 0 (sample_frame 0) (2 / 5) 2,
      Placeholder (reverse_channels (sample_frame 0)) caption,
      Write (LiveFrame 0 480 640 2 ''gun, knife'' 0 0 0),
      ModelCall 0 (sample_frame 1) (2 / 5) 2,
      Placeholder (reverse_channels (sample_frame 1)) caption,
      Write (LiveFrame 1 480 640 2 ''gun, knife'' 0 0 0),
      Warning warning,
      CapRelease sc,
      WriterOpen ''result.mp4'' ''mp4v'' 20 640 480,
      WriterWrite (sample_frame 0), WriterWrite (sample_frame 1),
      WriterRelease, Success (VideoSaved ''result.mp4'')]"

definition upload_run :: "event list" where
  "upload_run =
     [TempWrite ''/tmp/tmpvideo'' [4, 5, 6], Video ''/tmp/tmpvideo'',
      CapOpen (Location ''/tmp/tmpvideo''),
      ModelCall 0 (sample_frame 0) (2 / 5) 5,
      Write (VideoFrame 1 2 ''gun, knife''),
      ModelCall 0 (sample_frame 1) (2 / 5) 5,
      Write (VideoFrame 2 2 ''gun, knife''),
      CapRelease (Location ''/tmp/tmpvideo''), Unlink ''/tmp/tmpvideo'']"

definition image_run :: "event list" where
  "image_run =
     [ModelCall 0 (sample_frame 3) (2 / 5) 5,
      Write (Plain ''Original Image''), Img (sample_frame 3),
      Write (Plain ''Detected Objects''), Img (sample_frame 103),
      Write (ImageDetails 480 640), Write (ObjectsDetected 2),
      Write (Classes ''gun, knife''), Write (Speed 0 0 0),
      SidebarImage (sample_frame 103) ''Detected Image'',
      DownloadButton ''Download Result Image'' [103] ''result_image.jpg'']"

section \<open>Properties\<close>

subsection \<open>The model loader\<close>

lemma load_model_cached:
  "cache_resource p = Some m \<Longrightarrow> load_model p = (m, p)"
  by (simp add: load_model_def)

lemma load_models_cached:
  "cache_resource p = Some m \<Longrightarrow> load_models n p = (replicate n m, p)"
  by (induction n) (simp_all add: load_model_cached)

lemma load_model_first:
  "cache_resource p = None \<Longrightarrow>
   load_model p =
     (constructed p,
      p\<lparr>constructed := Suc (constructed p), cache_resource := Some (constructed p)\<rparr>)"
  by (simp add: load_model_def YOLO_def)

text \<open>
  C6. The detector is loaded exactly once per process: in a process that has just
  started, any number of successive calls of \<open>load_model\<close> (one per execution of the
  script) all return the model object of the first call, and exactly one \<open>YOLO\<close>
  object has been constructed afterwards.
\<close>

theorem C6_load_model_once:
  "load_models (Suc n) fresh =
     (replicate (Suc n) 0, \<lparr>cache_resource = Some 0, constructed = 1\<rparr>)"
  by (simp add: load_model_first load_models_cached fresh_def)

subsection \<open>The webcam and IP camera loop\<close>

lemma live_loop_closed:
  "\<not> cap_isOpened e (live_cap s) \<Longrightarrow> live_loop w cp e u m s = Some s"
  by (subst live_loop.simps) simp

lemma live_loop_fail:
  "cap_isOpened e (live_cap s) \<Longrightarrow> fst (cap_read e (live_cap s)) = None \<Longrightarrow>
   live_loop w cp e u m s =
     Some (s\<lparr>live_cap := snd (cap_read e (live_cap s)), shown := shown s @ [Warning w]\<rparr>)"
  by (subst live_loop.simps) (simp add: case_prod_beta)

lemma live_loop_step:
  "cap_isOpened e (live_cap s) \<Longrightarrow> fst (cap_read e (live_cap s)) = Some frame \<Longrightarrow>
   live_loop w cp e u m s =
     live_loop w cp e u m (live_iteration cp e u m frame (snd (cap_read e (live_cap s))) s)"
  by (subst live_loop.simps) (simp add: case_prod_beta)

lemma live_iteration_cap: "live_cap (live_iteration cp e u m frame c s) = c"
  by (simp add: live_iteration_def call_model_def Let_def)

lemma exits_at_Suc:
  "exits_at e c (Suc n) = exits_at e (snd (cap_read e c)) n"
  by (simp add: exits_at_def)

lemma live_loop_exits:
  "exits_at e (live_cap s) n \<Longrightarrow> \<exists>s'. live_loop w cp e u m s = Some s'"
proof (induction n arbitrary: s)
  case 0
  then show ?case
    by (cases "cap_isOpened e (live_cap s)")
       (auto simp: exits_at_def live_loop_closed live_loop_fail)
next
  case (Suc n)
  show ?case
  proof (cases "cap_isOpened e (live_cap s)")
    case False
    then show ?thesis by (simp add: live_loop_closed)
  next
    case True
    show ?thesis
    proof (cases "fst (cap_read e (live_cap s))")
      case None
      with True show ?thesis by (simp add: live_loop_fail)
    next
      case (Some frame)
      let ?t = "live_iteration cp e u m frame (snd (cap_read e (live_cap s))) s"
      from Suc.prems have "exits_at e (live_cap ?t) n"
        by (simp only: live_iteration_cap exits_at_Suc)
      from Suc.IH [OF this] obtain s' where "live_loop w cp e u m ?t = Some s'" ..
      with live_loop_step [OF True Some] show ?thesis by metis
    qed
  qed
qed

lemma live_loop_induct:
  assumes run: "live_loop w cp e u m s = Some s'"
    and closed: "\<And>s. \<not> cap_isOpened e (live_cap s) \<Longrightarrow> R s s"
    and fail: "\<And>s. cap_isOpened e (live_cap s) \<Longrightarrow> fst (cap_read e (live_cap s)) = None \<Longrightarrow>
                R s (s\<lparr>live_cap := snd (cap_read e (live_cap s)), shown := shown s @ [Warning w]\<rparr>)"
    and step: "\<And>s frame s'. cap_isOpened e (live_cap s) \<Longrightarrow>
                fst (cap_read e (live_cap s)) = Some frame \<Longrightarrow>
                R (live_iteration cp e u m frame (snd (cap_read e (live_cap s))) s) s' \<Longrightarrow> R s s'"
  shows "R s s'"
proof -
  let ?P = "\<lambda>w' cp' e' u' m' s s'.
              w' = w \<longrightarrow> cp' = cp \<longrightarrow> e' = e \<longrightarrow> u' = u \<longrightarrow> m' = m \<longrightarrow> R s s'"
  have "?P w cp e u m s s'"
  proof (rule live_loop.raw_induct [where P = ?P, OF _ run], goal_cases)
    case (1 loop w' cp' e' u' m' t t')
    show ?case
    proof (intro impI)
      assume eq: "w' = w" "cp' = cp" "e' = e" "u' = u" "m' = m"
      show "R t t'"
      proof (cases "cap_isOpened e (live_cap t)")
        case False
        with 1(2) eq have "t' = t" by simp
        with closed [OF False] show ?thesis by simp
      next
        case True
        show ?thesis
        proof (cases "fst (cap_read e (live_cap t))")
          case None
          with 1(2) eq True
          have "t' = t\<lparr>live_cap := snd (cap_read e (live_cap t)), shown := shown t @ [Warning w]\<rparr>"
            by (auto simp: case_prod_beta)
          with fail [OF True None] show ?thesis by simp
        next
          case (Some frame)
          with 1(2) eq True
          have "loop w cp e u m (live_iteration cp e u m frame (snd (cap_read e (live_cap t))) t) = Some t'"
            by (simp add: case_prod_beta)
          from 1(1) [OF this]
          have "R (live_iteration cp e u m frame (snd (cap_read e (live_cap t))) t) t'"
            by simp
          from step [OF True Some this] show ?thesis .
        qed
      qed
    qed
  qed
  then show ?thesis by simp
qed

lemma live_loop_only_exits:
  assumes "live_loop w cp e u m s = Some s'"
  shows "\<exists>n. exits_at e (live_cap s) n"
proof (rule live_loop_induct [OF assms, where R = "\<lambda>s s'. \<exists>n. exits_at e (live_cap s) n"], goal_cases)
  case (1 s)
  then have "exits_at e (live_cap s) 0" by (simp add: exits_at_def)
  then show ?case ..
next
  case (2 s)
  then have "exits_at e (live_cap s) 0" by (simp add: exits_at_def)
  then show ?case ..
next
  case (3 s frame s')
  then obtain n where "exits_at e (snd (cap_read e (live_cap s))) n"
    by (auto simp: live_iteration_cap)
  then have "exits_at e (live_cap s) (Suc n)" by (simp only: exits_at_Suc)
  then show ?case ..
qed

subsection \<open>The upload loop\<close>

lemma upload_loop_closed:
  "\<not> cap_isOpened e (cap s) \<Longrightarrow> upload_video_loop e u m s = Some s"
  by (subst upload_video_loop.simps) simp

lemma upload_loop_fail:
  "cap_isOpened e (cap s) \<Longrightarrow> fst (cap_read e (cap s)) = None \<Longrightarrow>
   upload_video_loop e u m s =
     Some (s\<lparr>cap := snd (cap_read e (cap s))\<rparr>)"
  by (subst upload_video_loop.simps) (simp add: case_prod_beta)

lemma upload_loop_step:
  "cap_isOpened e (cap s) \<Longrightarrow> fst (cap_read e (cap s)) = Some frame \<Longrightarrow>
   upload_video_loop e u m s =
     upload_video_loop e u m (upload_iteration e u m frame (snd (cap_read e (cap s))) s)"
  by (subst upload_video_loop.simps) (simp add: case_prod_beta)

lemma upload_iteration_cap: "cap (upload_iteration e u m frame c s) = c"
  by (simp add: upload_iteration_def process_video_frame_def call_model_def Let_def)

lemma upload_loop_exits:
  "exits_at e (cap s) n \<Longrightarrow> \<exists>s'. upload_video_loop e u m s = Some s'"
proof (induction n arbitrary: s)
  case 0
  then show ?case
    by (cases "cap_isOpened e (cap s)")
       (auto simp: exits_at_def upload_loop_closed upload_loop_fail)
next
  case (Suc n)
  show ?case
  proof (cases "cap_isOpened e (cap s)")
    case False
    then show ?thesis by (simp add: upload_loop_closed)
  next
    case True
    show ?thesis
    proof (cases "fst (cap_read e (cap s))")
      case None
      with True show ?thesis by (simp add: upload_loop_fail)
    next
      case (Some frame)
      let ?t = "upload_iteration e u m frame (snd (cap_read e (cap s))) s"
      from Suc.prems have "exits_at e (cap ?t) n"
        by (simp only: upload_iteration_cap exits_at_Suc)
      from Suc.IH [OF this] obtain s' where "upload_video_loop e u m ?t = Some s'" ..
      with upload_loop_step [OF True Some] show ?thesis by metis
    qed
  qed
qed

lemma upload_loop_induct:
  assumes run: "upload_video_loop e u m s = Some s'"
    and closed: "\<And>s. \<not> cap_isOpened e (cap s) \<Longrightarrow> R s s"
    and fail: "\<And>s. cap_isOpened e (cap s) \<Longrightarrow> fst (cap_read e (cap s)) = None \<Longrightarrow>
                R s (s\<lparr>cap := snd (cap_read e (cap s))\<rparr>)"
    and step: "\<And>s frame s'. cap_isOpened e (cap s) \<Longrightarrow>
                fst (cap_read e (cap s)) = Some frame \<Longrightarrow>
                R (upload_iteration e u m frame (snd (cap_read e (cap s))) s) s' \<Longrightarrow> R s s'"
  shows "R s s'"
proof -
  let ?P = "\<lambda>e' u' m' s s'. e' = e \<longrightarrow> u' = u \<longrightarrow> m' = m \<longrightarrow> R s s'"
  have "?P e u m s s'"
  proof (rule upload_video_loop.raw_induct [where P = ?P, OF _ run], goal_cases)
    case (1 loop e' u' m' t t')
    show ?case
    proof (intro impI)
      assume eq: "e' = e" "u' = u" "m' = m"
      show "R t t'"
      proof (cases "cap_isOpened e (cap t)")
        case False
        with 1(2) eq have "t' = t" by simp
        with closed [OF False] show ?thesis by simp
      next
        case True
        show ?thesis
        proof (cases "fst (cap_read e (cap t))")
          case None
          with 1(2) eq True
          have "t' = t\<lparr>cap := snd (cap_read e (cap t))\<rparr>"
            by (auto simp: case_prod_beta)
          with fail [OF True None] show ?thesis by simp
        next
          case (Some frame)
          with 1(2) eq True
          have "loop e u m (upload_iteration e u m frame (snd (cap_read e (cap t))) t) = Some t'"
            by (simp add: case_prod_beta)
          from 1(1) [OF this]
          have "R (upload_iteration e u m frame (snd (cap_read e (cap t))) t) t'"
            by simp
          from step [OF True Some this] show ?thesis .
        qed
      qed
    qed
  qed
  then show ?thesis by simp
qed

lemma upload_loop_only_exits:
  assumes "upload_video_loop e u m s = Some s'"
  shows "\<exists>n. exits_at e (cap s) n"
proof (rule upload_loop_induct [OF assms, where R = "\<lambda>s s'. \<exists>n. exits_at e (cap s) n"], goal_cases)
  case (1 s)
  then have "exits_at e (cap s) 0" by (simp add: exits_at_def)
  then show ?case ..
next
  case (2 s)
  then have "exits_at e (cap s) 0" by (simp add: exits_at_def)
  then show ?case ..
next
  case (3 s frame s')
  then obtain n where "exits_at e (snd (cap_read e (cap s))) n"
    by (auto simp: upload_iteration_cap)
  then have "exits_at e (cap s) (Suc n)" by (simp only: exits_at_Suc)
  then show ?case ..
qed

subsection \<open>Reading from a capture\<close>

lemma cap_read_src: "src (snd (cap_read e c)) = src c"
  by (simp add: cap_read_def)

subsection \<open>Exits of the video loops\<close>

text \<open>
  C5. Each of the three per-frame loops (uploaded video, webcam, IP camera) never
  exits while the capture reports open and the reads keep returning frames, and
  exits only when \<open>cap.isOpened()\<close> is false or a read returns \<open>ret = False\<close>:
  the loop runs forever (\<open>None\<close>) exactly when no number of reads brings the
  capture to a point where it reports closed or the next read fails. There is no
  other exit and no timeout.
\<close>

theorem C5_loop_exits_only_on_closed_or_failed_read:
  "(upload_video_loop e u m s = None \<longleftrightarrow> (\<forall>n. \<not> exits_at e (cap s) n)) \<and>
   (webcam_loop e u m t = None \<longleftrightarrow> (\<forall>n. \<not> exits_at e (live_cap t) n)) \<and>
   (ip_camera_loop e u m t = None \<longleftrightarrow> (\<forall>n. \<not> exits_at e (live_cap t) n))"
proof (intro conjI)
  show "upload_video_loop e u m s = None \<longleftrightarrow> (\<forall>n. \<not> exits_at e (cap s) n)"
    using upload_loop_exits [of e s _ u m] upload_loop_only_exits [of e u m s]
    by (cases "upload_video_loop e u m s") auto
  show "webcam_loop e u m t = None \<longleftrightarrow> (\<forall>n. \<not> exits_at e (live_cap t) n)"
    unfolding webcam_loop_def
    using live_loop_exits [of e t _ webcam_warning "''Webcam Detection''" u m]
      live_loop_only_exits [of webcam_warning "''Webcam Detection''" e u m t]
    by (cases "live_loop webcam_warning ''Webcam Detection'' e u m t") auto
  show "ip_camera_loop e u m t = None \<longleftrightarrow> (\<forall>n. \<not> exits_at e (live_cap t) n)"
    unfolding ip_camera_loop_def
    using live_loop_exits [of e t _ ip_camera_warning "''IP Camera Detection''" u m]
      live_loop_only_exits [of ip_camera_warning "''IP Camera Detection''" e u m t]
    by (cases "live_loop ip_camera_warning ''IP Camera Detection'' e u m t") auto
qed

lemma endless_never_exits: "\<not> exits_at endless c n"
  by (simp add: exits_at_def cap_isOpened_def cap_read_def endless_def two_frames_def)

lemma two_frames_exits: "exits_at two_frames \<lparr>src = sc, pos = 0\<rparr> (Suc (Suc 0))"
  by (simp add: exits_at_def cap_isOpened_def cap_read_def two_frames_def)

text \<open>
  On a source that never stops delivering the three loops run forever; on a source
  of two frames they exit.
\<close>

theorem C5_loop_exits_only_on_closed_or_failed_read_witness:
  "webcam_loop endless (sample_ui ''Livecam Detection'') 0 live_start = None \<and>
   ip_camera_loop endless (sample_ui ''Livecam Detection'') 0 live_start = None \<and>
   upload_video_loop endless (sample_ui ''Upload Video'') 0 upload_start = None \<and>
   upload_video_loop two_frames (sample_ui ''Upload Video'') 0 upload_start \<noteq> None \<and>
   webcam_loop two_frames (sample_ui ''Livecam Detection'') 0 live_start \<noteq> None"
  using C5_loop_exits_only_on_closed_or_failed_read [of endless "sample_ui ''Livecam Detection''" 0 upload_start live_start]
    C5_loop_exits_only_on_closed_or_failed_read [of endless "sample_ui ''Upload Video''" 0 upload_start live_start]
    C5_loop_exits_only_on_closed_or_failed_read [of two_frames "sample_ui ''Upload Video''" 0 upload_start live_start]
    C5_loop_exits_only_on_closed_or_failed_read [of two_frames "sample_ui ''Livecam Detection''" 0 upload_start live_start]
    endless_never_exits two_frames_exits [of "Location ''/tmp/tmpvideo''"]
    two_frames_exits [of "Camera 0"]
  by (simp add: upload_start_def live_start_def) blast

text \<open>
  C2, as the code has it. In every per-frame loop a read that returns \<open>ret = False\<close>
  ends the loop at once, with the capture advanced by that read and nothing else
  changed. The webcam loop and the IP camera loop first display their warning; the
  loop over an uploaded video displays nothing.
\<close>

theorem C2_failed_read_breaks_loop:
  "(cap_isOpened e (cap s) \<and> fst (cap_read e (cap s)) = None \<longrightarrow>
      upload_video_loop e u m s = Some (s\<lparr>cap := snd (cap_read e (cap s))\<rparr>)) \<and>
   (cap_isOpened e (live_cap t) \<and> fst (cap_read e (live_cap t)) = None \<longrightarrow>
      webcam_loop e u m t =
        Some (t\<lparr>live_cap := snd (cap_read e (live_cap t)),
                shown := shown t @ [Warning webcam_warning]\<rparr>) \<and>
      ip_camera_loop e u m t =
        Some (t\<lparr>live_cap := snd (cap_read e (live_cap t)),
                shown := shown t @ [Warning ip_camera_warning]\<rparr>))"
  by (simp add: upload_loop_fail live_loop_fail webcam_loop_def ip_camera_loop_def)

lemma no_frame_fails:
  "cap_isOpened no_frame c \<and> fst (cap_read no_frame c) = None"
  by (simp add: cap_isOpened_def cap_read_def no_frame_def two_frames_def)

text \<open>A source whose first read fails: each loop ends in its first iteration, the two live loops with their warning.\<close>

theorem C2_failed_read_breaks_loop_witness:
  "cap_isOpened no_frame (cap upload_start) \<and> fst (cap_read no_frame (cap upload_start)) = None \<and>
   cap_isOpened no_frame (live_cap live_start) \<and> fst (cap_read no_frame (live_cap live_start)) = None \<and>
   map_option out (upload_video_loop no_frame (sample_ui ''Upload Video'') 0 upload_start) = Some [] \<and>
   map_option shown (webcam_loop no_frame (sample_ui ''Livecam Detection'') 0 live_start) = Some [Warning webcam_warning] \<and>
   map_option shown (ip_camera_loop no_frame (sample_ui ''Livecam Detection'') 0 live_start) = Some [Warning ip_camera_warning]"
  using C2_failed_read_breaks_loop [of no_frame upload_start "sample_ui ''Upload Video''" 0 live_start]
    C2_failed_read_breaks_loop [of no_frame upload_start "sample_ui ''Livecam Detection''" 0 live_start]
    no_frame_fails
  by (simp add: upload_start_def live_start_def)

text \<open>
  C2 as the specification states it (a warning in every loop) fails on the uploaded
  video: the capture is open, its first read fails, and the whole branch emits the
  five events below, none of them a warning.
\<close>

theorem C2_upload_loop_breaks_without_warning:
  "cap_isOpened no_frame \<lparr>src = Location ''/tmp/tmpvideo'', pos = 0\<rparr> \<and>
   fst (cap_read no_frame \<lparr>src = Location ''/tmp/tmpvideo'', pos = 0\<rparr>) = None \<and>
   upload_video_branch no_frame (sample_ui ''Upload Video'') 0 =
     Some [TempWrite ''/tmp/tmpvideo'' [4, 5, 6], Video ''/tmp/tmpvideo'',
           CapOpen (Location ''/tmp/tmpvideo''), CapRelease (Location ''/tmp/tmpvideo''),
           Unlink ''/tmp/tmpvideo'']"
proof -
  have t: "tempfile_name no_frame = ''/tmp/tmpvideo''"
    by (simp add: no_frame_def two_frames_def)
  have v: "uploaded_video (sample_ui ''Upload Video'') = Some [4, 5, 6]"
    by (simp add: sample_ui_def)
  show ?thesis
    by (simp add: upload_video_branch_def t v Let_def upload_loop_fail no_frame_fails
        cap_read_src)
qed

subsection \<open>Saving the processed video\<close>

lemma index_first: "frames \<noteq> [] \<Longrightarrow> index frames 0 = Inr (hd frames)"
  by (simp add: index_def hd_conv_nth)

lemma write_frames_map: "write_frames frames = map WriterWrite frames"
  by (induction frames) simp_all

lemma save_video_eq:
  "save_video u frames =
     Inr (if save_processed_video u = ''Yes'' \<and> frames \<noteq> []
          then WriterOpen (result_video_path u) ''mp4v'' 20 (shape1 (hd frames)) (shape0 (hd frames)) #
               map WriterWrite frames @ [WriterRelease, Success (VideoSaved (result_video_path u))]
          else [])"
  by (simp add: save_video_def index_first write_frames_map)

lemma after_loop_eq:
  "after_loop u s =
     Inr (shown s @ [CapRelease (src (live_cap s))] @
          (if save_processed_video u = ''Yes'' \<and> processed_frames s \<noteq> []
           then WriterOpen (result_video_path u) ''mp4v'' 20
                  (shape1 (hd (processed_frames s))) (shape0 (hd (processed_frames s))) #
                map WriterWrite (processed_frames s) @
                [WriterRelease, Success (VideoSaved (result_video_path u))]
           else []))"
  by (simp add: after_loop_def save_video_eq)

text \<open>
  C10. The save path reads \<open>processed_frames[0]\<close> only under the guard that the list
  is not empty, so it never raises IndexError: \<open>save_video\<close> always completes, an
  empty list of frames writes nothing (no writer is opened), and neither camera
  branch ends in an exception.
\<close>

theorem C10_save_never_indexes_empty_list:
  "(\<exists>evs. save_video u frames = Inr evs) \<and>
   save_video u [] = Inr [] \<and>
   webcam_branch e u m \<noteq> Some (Inl err) \<and>
   ip_camera_branch e u m \<noteq> Some (Inl err)"
  by (simp add: save_video_eq webcam_branch_def ip_camera_branch_def after_loop_eq Let_def
      split: option.split)

subsection \<open>The choice of input type\<close>

lemma not_camera_choice:
  "option u \<in> set input_types \<Longrightarrow>
   option u \<noteq> ''Webcam Detection'' \<and> option u \<noteq> ''IP Camera Detection''"
  by (auto simp: input_types_def)

lemma camera_dispatch_message:
  "option u \<in> set input_types \<Longrightarrow>
   camera_dispatch e u m = Some (Inr [Write (Plain select_message)])"
  using not_camera_choice [of u] by (simp add: camera_dispatch_def)

lemma upload_dispatch_livecam:
  "option u = ''Livecam Detection'' \<Longrightarrow> upload_dispatch e u m = Some (Inr [])"
  by (simp add: upload_dispatch_def)

lemma script_livecam:
  assumes "option u = ''Livecam Detection''"
  shows "fst (script e u p) =
     Some (Inr [Title ''YOLOv8 Objects Detection App'',
                SidebarTitle ''Detection Options Config'',
                ModelTo (fst (load_model p)) (DEVICES u),
                ModelTo (fst (load_model p)) (DEVICES u),
                Write (Plain select_message)])"
proof -
  from assms have "option u \<in> set input_types" by (simp add: input_types_def)
  then show ?thesis
    by (simp add: script_def case_prod_beta Let_def upload_dispatch_livecam [OF assms]
        camera_dispatch_message)
qed

text \<open>
  C8. The radio yields one of its three choices, so in every execution both
  \<open>option == "Webcam Detection"\<close> and \<open>option == "IP Camera Detection"\<close> are false and
  the second chain always takes its \<open>else\<close> branch. With Livecam Detection chosen the
  whole execution is: the title, the sidebar title, the two \<open>model.to\<close> calls and
  the message; no detector call and no capture.
\<close>

theorem C8_camera_branches_unreachable:
  assumes "option u \<in> set input_types"
  shows "option u \<noteq> ''Webcam Detection'' \<and> option u \<noteq> ''IP Camera Detection'' \<and>
         camera_dispatch e u m = Some (Inr [Write (Plain select_message)]) \<and>
         (option u = ''Livecam Detection'' \<longrightarrow>
            fst (script e u p) =
              Some (Inr [Title ''YOLOv8 Objects Detection App'',
                         SidebarTitle ''Detection Options Config'',
                         ModelTo (fst (load_model p)) (DEVICES u),
                         ModelTo (fst (load_model p)) (DEVICES u),
                         Write (Plain select_message)]))"
  using assms not_camera_choice [OF assms] camera_dispatch_message [OF assms] script_livecam
  by blast

lemma sample_ui_option: "option (sample_ui choice) = choice"
  by (simp add: sample_ui_def)

lemma sample_ui_devices: "DEVICES (sample_ui choice) = ''cpu''"
  by (simp add: sample_ui_def)

lemma load_model_fresh: "fst (load_model fresh) = 0"
  by (simp add: load_model_first fresh_def)

text \<open>The choice Livecam Detection, with both start buttons pressed.\<close>

theorem C8_camera_branches_unreachable_witness:
  "option (sample_ui ''Livecam Detection'') \<in> set input_types \<and>
   camera_dispatch two_frames (sample_ui ''Livecam Detection'') 0 =
     Some (Inr [Write (Plain select_message)]) \<and>
   fst (script two_frames (sample_ui ''Livecam Detection'') fresh) =
     Some (Inr [Title ''YOLOv8 Objects Detection App'',
                SidebarTitle ''Detection Options Config'',
                ModelTo 0 ''cpu'', ModelTo 0 ''cpu'',
                Write (Plain select_message)])"
proof -
  have h: "option (sample_ui ''Livecam Detection'') \<in> set input_types"
    by (simp add: sample_ui_option input_types_def)
  show ?thesis
    using h C8_camera_branches_unreachable [OF h, of two_frames 0 fresh]
    by (simp add: sample_ui_option sample_ui_devices load_model_fresh)
qed

text \<open>
  C1 at the choice Livecam Detection, the only one the radio offers besides the two
  uploads: neither of the strings the camera branches test is among the radio's
  choices, and with both start buttons pressed the execution opens no capture, calls
  no detector and only shows the message of the \<open>else\<close> branch. No choice of input
  type runs the webcam handler or the IP camera handler.
\<close>

theorem C1_livecam_runs_no_camera_handler:
  "''Webcam Detection'' \<notin> set input_types \<and>
   ''IP Camera Detection'' \<notin> set input_types \<and>
   start_button_webcam (sample_ui ''Livecam Detection'') \<and>
   start_button_ip (sample_ui ''Livecam Detection'') \<and>
   fst (script two_frames (sample_ui ''Livecam Detection'') fresh) =
     Some (Inr [Title ''YOLOv8 Objects Detection App'',
                SidebarTitle ''Detection Options Config'',
                ModelTo 0 ''cpu'', ModelTo 0 ''cpu'',
                Write (Plain select_message)])"
  using script_livecam [of "sample_ui ''Livecam Detection''" two_frames fresh]
  by (simp add: input_types_def sample_ui_option sample_ui_devices load_model_fresh)
     (simp add: sample_ui_def)

subsection \<open>Events of the webcam and IP camera loop\<close>

lemma length_collect_labels:
  "length (collect_labels e acc bs) = length acc + length bs"
  by (induction bs arbitrary: acc) simp_all

lemma length_slice_to:
  "0 \<le> n \<Longrightarrow> int (length (slice_to xs n)) \<le> n"
  by (simp add: slice_to_def)

lemma live_iteration_shown:
  "\<exists>i h w txt t1 t2 t3.
     shown (live_iteration cp e u m frame c s) =
       shown s @
       [ModelCall m frame (MIN_SCORE_THRES u) (MAX_BOXES_TO_DRAW u),
        Placeholder (reverse_channels (annotate e u frame)) cp,
        Write (LiveFrame i h w
                (length (slice_to (boxes (predict e frame (MIN_SCORE_THRES u) (MAX_BOXES_TO_DRAW u)))
                           (MAX_BOXES_TO_DRAW u)))
                txt t1 t2 t3)]"
  by (simp add: live_iteration_def call_model_def Let_def annotate_def length_collect_labels)

lemma live_iteration_frames:
  "processed_frames (live_iteration cp e u m frame c s) =
     processed_frames s @ [annotate e u frame]"
  by (simp add: live_iteration_def call_model_def Let_def annotate_def)

lemma live_iteration_emits:
  assumes "\<And>frame. Q (ModelCall m frame (MIN_SCORE_THRES u) (MAX_BOXES_TO_DRAW u))"
    and "\<And>x. Q (Placeholder x cp)"
    and "\<And>i h w txt t1 t2 t3 frame.
           Q (Write (LiveFrame i h w
                (length (slice_to (boxes (predict e frame (MIN_SCORE_THRES u) (MAX_BOXES_TO_DRAW u)))
                           (MAX_BOXES_TO_DRAW u)))
                txt t1 t2 t3))"
  shows "\<exists>evs. shown (live_iteration cp e u m frame c s) = shown s @ evs \<and> list_all Q evs"
  using live_iteration_shown [of cp e u m frame c s] assms by auto

lemma live_loop_emits:
  assumes run: "live_loop wn cp e u m s = Some s'"
    and "\<And>frame. Q (ModelCall m frame (MIN_SCORE_THRES u) (MAX_BOXES_TO_DRAW u))"
    and "\<And>x. Q (Placeholder x cp)"
    and "\<And>i h w txt t1 t2 t3 frame.
           Q (Write (LiveFrame i h w
                (length (slice_to (boxes (predict e frame (MIN_SCORE_THRES u) (MAX_BOXES_TO_DRAW u)))
                           (MAX_BOXES_TO_DRAW u)))
                txt t1 t2 t3))"
    and "Q (Warning wn)"
  shows "\<exists>evs. shown s' = shown s @ evs \<and> list_all Q evs"
proof (rule live_loop_induct [OF run, where R = "\<lambda>s s'. \<exists>evs. shown s' = shown s @ evs \<and> list_all Q evs"], goal_cases)
  case (1 s)
  then show ?case by simp
next
  case (2 s)
  then show ?case using assms(5) by simp
next
  case (3 s frame s')
  then obtain evs where a: "shown s' = shown (live_iteration cp e u m frame (snd (cap_read e (live_cap s))) s) @ evs"
    and b: "list_all Q evs" by blast
  from live_iteration_emits [of Q m u cp e frame "snd (cap_read e (live_cap s))" s] assms(2-4)
  obtain evs0 where c: "shown (live_iteration cp e u m frame (snd (cap_read e (live_cap s))) s) = shown s @ evs0"
    and d: "list_all Q evs0" by blast
  from a b c d have "shown s' = shown s @ (evs0 @ evs) \<and> list_all Q (evs0 @ evs)" by simp
  then show ?case by blast
qed

lemma live_loop_src:
  assumes run: "live_loop wn cp e u m s = Some s'"
  shows "src (live_cap s') = src (live_cap s)"
proof (rule live_loop_induct [OF run, where R = "\<lambda>s s'. src (live_cap s') = src (live_cap s)"], goal_cases)
  case (1 s)
  then show ?case by simp
next
  case (2 s)
  then show ?case by (simp add: cap_read_src)
next
  case (3 s frame s')
  then show ?case by (simp add: live_iteration_cap cap_read_src)
qed

subsection \<open>The sample executions\<close>

lemma greedy_simps:
  "predict greedy x c k = \<lparr>boxes = sample_boxes, speed = None, plot = x\<rparr>"
  "names greedy i = (if i = 0 then ''gun'' else ''knife'')"
  "is_open greedy sc n = True"
  "grab greedy sc n = (if n < 2 then Some (sample_frame n) else None)"
  by (simp_all add: greedy_def two_frames_def)

lemma two_frames_simps:
  "predict two_frames = sample_predict"
  "names two_frames i = (if i = 0 then ''gun'' else ''knife'')"
  "image_open two_frames content = sample_frame (length content)"
  "imencode two_frames ext img = [pixels img]"
  "tempfile_name two_frames = ''/tmp/tmpvideo''"
  "is_open two_frames sc n = True"
  "grab two_frames sc n = (if n < 2 then Some (sample_frame n) else None)"
  "clock two_frames n = of_nat n"
  by (simp_all add: two_frames_def)

lemma two_boxes_simps:
  "MAX_BOXES_TO_DRAW two_boxes = 2"
  "MIN_SCORE_THRES two_boxes = 2 / 5"
  "start_button_webcam two_boxes"
  "start_button_ip two_boxes"
  "ip_url two_boxes = ''rtsp://camera''"
  "save_processed_video two_boxes = ''Yes''"
  "result_video_path two_boxes = ''result.mp4''"
  by (simp_all add: two_boxes_def sample_ui_def)

lemma greedy_iteration:
  "live_iteration caption greedy two_boxes 0 (sample_frame n) c s =
     s\<lparr>live_cap := c,
       processed_frames := processed_frames s @ [sample_frame n],
       shown := shown s @
         [ModelCall 0 (sample_frame n) (2 / 5) 2,
          Placeholder (reverse_channels (sample_frame n)) caption,
          Write (LiveFrame (int (length (processed_frames s))) 480 640 2 ''gun, knife'' 0 0 0)]\<rparr>"
  by (simp add: live_iteration_def call_model_def Let_def greedy_simps two_boxes_simps
      sample_boxes_def slice_to_def default_speed_def dict_get_def sample_frame_def)

lemma greedy_live_loop:
  "live_loop warning caption greedy two_boxes 0
     \<lparr>live_cap = \<lparr>src = sc, pos = 0\<rparr>, processed_frames = [], shown = evs\<rparr> =
   Some \<lparr>live_cap = \<lparr>src = sc, pos = 3\<rparr>,
         processed_frames = [sample_frame 0, sample_frame 1],
         shown = evs @
          [ModelCall 0 (sample_frame 0) (2 / 5) 2,
           Placeholder (reverse_channels (sample_frame 0)) caption,
           Write (LiveFrame 0 480 640 2 ''gun, knife'' 0 0 0),
           ModelCall 0 (sample_frame 1) (2 / 5) 2,
           Placeholder (reverse_channels (sample_frame 1)) caption,
           Write (LiveFrame 1 480 640 2 ''gun, knife'' 0 0 0),
           Warning warning]\<rparr>"
  apply (subst live_loop.simps)
  apply (simp add: cap_isOpened_def cap_read_def greedy_simps greedy_iteration)
  apply (subst live_loop.simps)
  apply (simp add: cap_isOpened_def cap_read_def greedy_simps greedy_iteration)
  apply (subst live_loop.simps)
  apply (simp add: cap_isOpened_def cap_read_def greedy_simps greedy_iteration)
  done

lemma webcam_greedy_run:
  "webcam_branch greedy two_boxes 0 =
     Some (Inr (live_run (Camera 0) ''Webcam Detection'' webcam_warning))"
  by (simp add: webcam_branch_def webcam_loop_def greedy_live_loop after_loop_eq
      two_boxes_simps live_run_def sample_frame_def)

lemma ip_greedy_run:
  "ip_camera_branch greedy two_boxes 0 =
     Some (Inr (live_run (Location ''rtsp://camera'') ''IP Camera Detection'' ip_camera_warning))"
  by (simp add: ip_camera_branch_def ip_camera_loop_def greedy_live_loop after_loop_eq
      two_boxes_simps live_run_def sample_frame_def)


lemma sample_ui_simps:
  "MAX_BOXES_TO_DRAW (sample_ui choice) = 5"
  "MIN_SCORE_THRES (sample_ui choice) = 2 / 5"
  "save_option (sample_ui choice) = ''Yes''"
  "uploaded_image (sample_ui choice) = Some [1, 2, 3]"
  "uploaded_video (sample_ui choice) = Some [4, 5, 6]"
  "take_snapshot (sample_ui choice) = False"
  "auto_snapshot (sample_ui choice) = False"
  by (simp_all add: sample_ui_def)

lemma sample_predict_boxes:
  "boxes (sample_predict x (2 / 5) 5) = [\<lparr>cls = 0, score = 9 / 10\<rparr>, \<lparr>cls = 1, score = 6 / 10\<rparr>]"
  by (simp add: sample_predict_def sample_boxes_def)

lemma sample_predict_rest:
  "speed (sample_predict x c k) = Some default_speed"
  "plot (sample_predict (sample_frame n) c k) = sample_frame (n + 100)"
  by (simp_all add: sample_predict_def sample_frame_def)

lemma two_frames_iteration:
  "\<not> snapshot_button s \<Longrightarrow>
   upload_iteration two_frames (sample_ui choice) 0 (sample_frame n) c s =
     s\<lparr>cap := c, time_calls := Suc (time_calls s), snapshot_button := False,
       out := out s @ [ModelCall 0 (sample_frame n) (2 / 5) 5,
                       Write (VideoFrame (pos c) 2 ''gun, knife'')]\<rparr>"
  by (simp add: upload_iteration_def process_video_frame_def call_model_def Let_def
      two_frames_simps sample_ui_simps sample_predict_boxes class_names_def)

lemma two_frames_upload_loop:
  "upload_video_loop two_frames (sample_ui choice) 0
     \<lparr>cap = \<lparr>src = sc, pos = 0\<rparr>, time_calls = k, last_snapshot_time = t0,
      snapshot_button = False, out = evs\<rparr> =
   Some \<lparr>cap = \<lparr>src = sc, pos = 3\<rparr>, time_calls = Suc (Suc k), last_snapshot_time = t0,
         snapshot_button = False,
         out = evs @
           [ModelCall 0 (sample_frame 0) (2 / 5) 5, Write (VideoFrame 1 2 ''gun, knife''),
            ModelCall 0 (sample_frame 1) (2 / 5) 5, Write (VideoFrame 2 2 ''gun, knife'')]\<rparr>"
  apply (subst upload_video_loop.simps)
  apply (simp add: cap_isOpened_def cap_read_def two_frames_simps two_frames_iteration)
  apply (subst upload_video_loop.simps)
  apply (simp add: cap_isOpened_def cap_read_def two_frames_simps two_frames_iteration)
  apply (subst upload_video_loop.simps)
  apply (simp add: cap_isOpened_def cap_read_def two_frames_simps two_frames_iteration)
  done

lemma upload_video_run:
  "upload_video_branch two_frames (sample_ui choice) 0 = Some upload_run"
  by (simp add: upload_video_branch_def Let_def two_frames_simps sample_ui_simps
      two_frames_upload_loop upload_run_def)

lemma upload_image_run:
  "upload_image_branch two_frames (sample_ui choice) 0 = Inr image_run"
  by (simp add: upload_image_branch_def process_image_def call_model_def display_results_def
      Let_def two_frames_simps sample_ui_simps sample_predict_boxes sample_predict_rest
      class_names_def getitem_def default_speed_def image_run_def)
     (simp add: sample_frame_def)

subsection \<open>Events of the upload loop\<close>

lemma upload_iteration_out:
  "\<exists>snap n k txt.
     out (upload_iteration e u m frame c s) =
       out s @ [ModelCall m frame (MIN_SCORE_THRES u) (MAX_BOXES_TO_DRAW u)] @
       map Snapshot snap @ [Write (VideoFrame n k txt)]"
proof (cases "snapshot_button s \<or>
    (auto_snapshot u \<and> clock e (time_calls s) - last_snapshot_time s \<ge> of_int (snapshot_interval u))")
  case True
  then have "out (upload_iteration e u m frame c s) =
       out s @ [ModelCall m frame (MIN_SCORE_THRES u) (MAX_BOXES_TO_DRAW u)] @
       map Snapshot [annotate e u frame] @
       [Write (VideoFrame (pos c) (length (boxes (predict e frame (MIN_SCORE_THRES u) (MAX_BOXES_TO_DRAW u))))
                 (join '', '' (class_names e (predict e frame (MIN_SCORE_THRES u) (MAX_BOXES_TO_DRAW u)))))]"
    by (simp add: upload_iteration_def process_video_frame_def call_model_def Let_def annotate_def)
  then show ?thesis by blast
next
  case False
  then have "out (upload_iteration e u m frame c s) =
       out s @ [ModelCall m frame (MIN_SCORE_THRES u) (MAX_BOXES_TO_DRAW u)] @
       map Snapshot [] @
       [Write (VideoFrame (pos c) (length (boxes (predict e frame (MIN_SCORE_THRES u) (MAX_BOXES_TO_DRAW u))))
                 (join '', '' (class_names e (predict e frame (MIN_SCORE_THRES u) (MAX_BOXES_TO_DRAW u)))))]"
    by (simp add: upload_iteration_def process_video_frame_def call_model_def Let_def)
  then show ?thesis by blast
qed

lemma upload_iteration_emits:
  assumes "\<And>frame. Q (ModelCall m frame (MIN_SCORE_THRES u) (MAX_BOXES_TO_DRAW u))"
    and "\<And>x. Q (Snapshot x)"
    and "\<And>n k txt. Q (Write (VideoFrame n k txt))"
  shows "\<exists>evs. out (upload_iteration e u m frame c s) = out s @ evs \<and> list_all Q evs"
proof -
  from upload_iteration_out [of e u m frame c s] obtain snap n k lbl where
    "out (upload_iteration e u m frame c s) =
       out s @ [ModelCall m frame (MIN_SCORE_THRES u) (MAX_BOXES_TO_DRAW u)] @
       map Snapshot snap @ [Write (VideoFrame n k lbl)]"
    by blast
  moreover have "list_all Q ([ModelCall m frame (MIN_SCORE_THRES u) (MAX_BOXES_TO_DRAW u)] @
       map Snapshot snap @ [Write (VideoFrame n k lbl)])"
    using assms by (simp add: list_all_iff)
  ultimately show ?thesis by blast
qed

lemma upload_loop_emits:
  assumes run: "upload_video_loop e u m s = Some s'"
    and "\<And>frame. Q (ModelCall m frame (MIN_SCORE_THRES u) (MAX_BOXES_TO_DRAW u))"
    and "\<And>x. Q (Snapshot x)"
    and "\<And>n k txt. Q (Write (VideoFrame n k txt))"
  shows "\<exists>evs. out s' = out s @ evs \<and> list_all Q evs"
proof (rule upload_loop_induct [OF run, where R = "\<lambda>s s'. \<exists>evs. out s' = out s @ evs \<and> list_all Q evs"], goal_cases)
  case (1 s)
  then show ?case by simp
next
  case (2 s)
  then show ?case by simp
next
  case (3 s frame s')
  then obtain evs where a: "out s' = out (upload_iteration e u m frame (snd (cap_read e (cap s))) s) @ evs"
    and b: "list_all Q evs" by blast
  from upload_iteration_emits [of Q m u e frame "snd (cap_read e (cap s))" s] assms(2-4)
  obtain evs0 where c: "out (upload_iteration e u m frame (snd (cap_read e (cap s))) s) = out s @ evs0"
    and d: "list_all Q evs0" by blast
  from a b c d have "out s' = out s @ (evs0 @ evs) \<and> list_all Q (evs0 @ evs)" by simp
  then show ?case by blast
qed

lemma upload_loop_src:
  assumes run: "upload_video_loop e u m s = Some s'"
  shows "src (cap s') = src (cap s)"
proof (rule upload_loop_induct [OF run, where R = "\<lambda>s s'. src (cap s') = src (cap s)"], goal_cases)
  case (1 s)
  then show ?case by simp
next
  case (2 s)
  then show ?case by (simp add: cap_read_src)
next
  case (3 s frame s')
  then show ?case by (simp add: upload_iteration_cap cap_read_src)
qed

subsection \<open>The camera branches\<close>

lemma live_loop_trace:
  assumes run: "live_loop wn cp e u m
                  \<lparr>live_cap = \<lparr>src = sc, pos = 0\<rparr>, processed_frames = [], shown = start\<rparr> = Some s'"
    and "\<And>frame. Q (ModelCall m frame (MIN_SCORE_THRES u) (MAX_BOXES_TO_DRAW u))"
    and "\<And>x. Q (Placeholder x cp)"
    and "\<And>i h w lbl t1 t2 t3 frame.
           Q (Write (LiveFrame i h w
                (length (slice_to (boxes (predict e frame (MIN_SCORE_THRES u) (MAX_BOXES_TO_DRAW u)))
                           (MAX_BOXES_TO_DRAW u)))
                lbl t1 t2 t3))"
    and "Q (Warning wn)"
  shows "\<exists>body. after_loop u s' =
           Inr (start @ body @ [CapRelease sc] @
                (if save_processed_video u = ''Yes'' \<and> processed_frames s' \<noteq> []
                 then writer_events u (processed_frames s') @
                      [Success (VideoSaved (result_video_path u))]
                 else [])) \<and>
         list_all Q body"
proof -
  from live_loop_emits [OF run, of Q] assms(2-5)
  obtain body where "shown s' = start @ body" and "list_all Q body" by auto
  moreover from live_loop_src [OF run] have "src (live_cap s') = sc" by simp
  ultimately show ?thesis
    by (auto simp: after_loop_eq writer_events_def)
qed

lemma loop_event_not_resource: "is_loop_event ev \<Longrightarrow> \<not> is_resource_event ev"
  by (cases ev rule: is_loop_event.cases) simp_all

lemma loop_event_not_writer: "is_loop_event ev \<Longrightarrow> \<not> is_writer_event ev"
  by (cases ev rule: is_loop_event.cases) simp_all

lemma loop_events_no_resource: "list_all is_loop_event evs \<Longrightarrow> \<not> list_ex is_resource_event evs"
  by (auto simp: list_all_iff list_ex_iff loop_event_not_resource)

lemma loop_events_no_writer: "list_all is_loop_event evs \<Longrightarrow> filter is_writer_event evs = []"
  by (auto simp: list_all_iff filter_empty_conv loop_event_not_writer)

lemma writer_events_plain:
  "\<not> list_ex is_loop_event (writer_events u frames @ [Success msg]) \<and>
   \<not> list_ex is_resource_event (writer_events u frames @ [Success msg])"
  by (auto simp: writer_events_def list_ex_iff)

lemma writer_events_filter:
  "filter is_writer_event (writer_events u frames @ [Success msg]) = writer_events u frames"
proof -
  have "filter is_writer_event (map WriterWrite frames) = map WriterWrite frames"
    by (induction frames) simp_all
  then show ?thesis by (simp add: writer_events_def)
qed

lemma live_branch_shape:
  assumes "exits_at e \<lparr>src = sc, pos = 0\<rparr> n"
  shows "\<exists>s' body saved.
           live_loop wn cp e u m
             \<lparr>live_cap = \<lparr>src = sc, pos = 0\<rparr>, processed_frames = [], shown = start\<rparr> = Some s' \<and>
           after_loop u s' = Inr (start @ body @ [CapRelease sc] @ saved) \<and>
           list_all is_loop_event body \<and> \<not> list_ex is_resource_event body \<and>
           \<not> list_ex is_loop_event saved \<and> \<not> list_ex is_resource_event saved"
proof -
  let ?s0 = "\<lparr>live_cap = \<lparr>src = sc, pos = 0\<rparr>, processed_frames = [], shown = start\<rparr>"
  from assms have "exits_at e (live_cap ?s0) n" by simp
  from live_loop_exits [OF this, of wn cp u m]
  obtain s' where run: "live_loop wn cp e u m ?s0 = Some s'" by blast
  from live_loop_trace [OF run, of is_loop_event]
  obtain body where tr: "after_loop u s' =
           Inr (start @ body @ [CapRelease sc] @
                (if save_processed_video u = ''Yes'' \<and> processed_frames s' \<noteq> []
                 then writer_events u (processed_frames s') @
                      [Success (VideoSaved (result_video_path u))]
                 else []))" and body: "list_all is_loop_event body"
    by auto
  let ?saved = "if save_processed_video u = ''Yes'' \<and> processed_frames s' \<noteq> []
                 then writer_events u (processed_frames s') @
                      [Success (VideoSaved (result_video_path u))]
                 else []"
  have "\<not> list_ex is_loop_event ?saved \<and> \<not> list_ex is_resource_event ?saved"
    using writer_events_plain by simp
  with run tr body loop_events_no_resource [OF body] show ?thesis by blast
qed

lemma upload_branch_shape:
  assumes up: "uploaded_video u = Some content"
    and ex: "exits_at e \<lparr>src = Location (tempfile_name e), pos = 0\<rparr> n"
  shows "\<exists>body. upload_video_branch e u m =
           Some ([TempWrite (tempfile_name e) content, Video (tempfile_name e),
                  CapOpen (Location (tempfile_name e))] @ body @
                 [CapRelease (Location (tempfile_name e)), Unlink (tempfile_name e)]) \<and>
         list_all is_loop_event body \<and> \<not> list_ex is_resource_event body"
proof -
  let ?s0 = "\<lparr>cap = \<lparr>src = Location (tempfile_name e), pos = 0\<rparr>, time_calls = 1,
             last_snapshot_time = clock e 0, snapshot_button = take_snapshot u,
             out = [TempWrite (tempfile_name e) content, Video (tempfile_name e),
                    CapOpen (Location (tempfile_name e))]\<rparr>"
  from ex have "exits_at e (cap ?s0) n" by simp
  from upload_loop_exits [OF this, of u m]
  obtain s' where run: "upload_video_loop e u m ?s0 = Some s'" by blast
  from upload_loop_emits [OF run, of is_loop_event]
  obtain body where o: "out s' = out ?s0 @ body" and body: "list_all is_loop_event body"
    by auto
  from upload_loop_src [OF run] have sc: "src (cap s') = Location (tempfile_name e)" by simp
  have "upload_video_branch e u m =
           Some ([TempWrite (tempfile_name e) content, Video (tempfile_name e),
                  CapOpen (Location (tempfile_name e))] @ body @
                 [CapRelease (Location (tempfile_name e)), Unlink (tempfile_name e)])"
    using run o sc by (simp add: upload_video_branch_def up Let_def)
  with body loop_events_no_resource [OF body] show ?thesis by blast
qed

text \<open>
  C3. Whenever its loop exits, the uploaded-video branch writes the uploaded bytes to
  the temporary file, opens the capture on it, and after the events of the loop
  releases that capture and then unlinks that file, as its last two events. In the
  same way the webcam branch and the IP camera branch open their capture first and
  release it right after the events of the loop; what follows the release is the
  save path only. No other event of a branch touches the file or a capture.
\<close>

theorem C3_resources_released_after_loop:
  "(uploaded_video u = Some content \<and>
    exits_at e \<lparr>src = Location (tempfile_name e), pos = 0\<rparr> n \<longrightarrow>
      (\<exists>body. upload_video_branch e u m =
           Some ([TempWrite (tempfile_name e) content, Video (tempfile_name e),
                  CapOpen (Location (tempfile_name e))] @ body @
                 [CapRelease (Location (tempfile_name e)), Unlink (tempfile_name e)]) \<and>
         list_all is_loop_event body \<and> \<not> list_ex is_resource_event body)) \<and>
   (start_button_webcam u \<and> exits_at e \<lparr>src = Camera 0, pos = 0\<rparr> n \<longrightarrow>
      (\<exists>body saved. webcam_branch e u m =
           Some (Inr ([CapOpen (Camera 0), Subheader ''Detection Frame Detail Results''] @
                      body @ [CapRelease (Camera 0)] @ saved)) \<and>
         list_all is_loop_event body \<and> \<not> list_ex is_resource_event body \<and>
         \<not> list_ex is_loop_event saved \<and> \<not> list_ex is_resource_event saved)) \<and>
   (start_button_ip u \<and> ip_url u \<noteq> [] \<and>
    exits_at e \<lparr>src = Location (ip_url u), pos = 0\<rparr> n \<longrightarrow>
      (\<exists>body saved. ip_camera_branch e u m =
           Some (Inr ([CapOpen (Location (ip_url u)),
                       Subheader ''Detection Frame Detail Results''] @
                      body @ [CapRelease (Location (ip_url u))] @ saved)) \<and>
         list_all is_loop_event body \<and> \<not> list_ex is_resource_event body \<and>
         \<not> list_ex is_loop_event saved \<and> \<not> list_ex is_resource_event saved))"
proof (intro conjI impI)
  assume "uploaded_video u = Some content \<and>
    exits_at e \<lparr>src = Location (tempfile_name e), pos = 0\<rparr> n"
  then show "\<exists>body. upload_video_branch e u m =
           Some ([TempWrite (tempfile_name e) content, Video (tempfile_name e),
                  CapOpen (Location (tempfile_name e))] @ body @
                 [CapRelease (Location (tempfile_name e)), Unlink (tempfile_name e)]) \<and>
         list_all is_loop_event body \<and> \<not> list_ex is_resource_event body"
    using upload_branch_shape by blast
next
  assume a: "start_button_webcam u \<and> exits_at e \<lparr>src = Camera 0, pos = 0\<rparr> n"
  from live_branch_shape [of e "Camera 0" n webcam_warning "''Webcam Detection''" u m
      "[CapOpen (Camera 0), Subheader ''Detection Frame Detail Results'']"] a
  obtain s' body saved where
    run: "webcam_loop e u m
            \<lparr>live_cap = \<lparr>src = Camera 0, pos = 0\<rparr>, processed_frames = [],
             shown = [CapOpen (Camera 0), Subheader ''Detection Frame Detail Results'']\<rparr> = Some s'"
    and tr: "after_loop u s' =
           Inr ([CapOpen (Camera 0), Subheader ''Detection Frame Detail Results''] @
                body @ [CapRelease (Camera 0)] @ saved)"
    and props: "list_all is_loop_event body" "\<not> list_ex is_resource_event body"
      "\<not> list_ex is_loop_event saved" "\<not> list_ex is_resource_event saved"
    unfolding webcam_loop_def by blast
  from a run tr have "webcam_branch e u m =
           Some (Inr ([CapOpen (Camera 0), Subheader ''Detection Frame Detail Results''] @
                      body @ [CapRelease (Camera 0)] @ saved))"
    by (simp add: webcam_branch_def)
  with props show "\<exists>body saved. webcam_branch e u m =
           Some (Inr ([CapOpen (Camera 0), Subheader ''Detection Frame Detail Results''] @
                      body @ [CapRelease (Camera 0)] @ saved)) \<and>
         list_all is_loop_event body \<and> \<not> list_ex is_resource_event body \<and>
         \<not> list_ex is_loop_event saved \<and> \<not> list_ex is_resource_event saved"
    by blast
next
  assume a: "start_button_ip u \<and> ip_url u \<noteq> [] \<and>
    exits_at e \<lparr>src = Location (ip_url u), pos = 0\<rparr> n"
  from live_branch_shape [of e "Location (ip_url u)" n ip_camera_warning
      "''IP Camera Detection''" u m
      "[CapOpen (Location (ip_url u)), Subheader ''Detection Frame Detail Results'']"] a
  obtain s' body saved where
    run: "ip_camera_loop e u m
            \<lparr>live_cap = \<lparr>src = Location (ip_url u), pos = 0\<rparr>, processed_frames = [],
             shown = [CapOpen (Location (ip_url u)),
                      Subheader ''Detection Frame Detail Results'']\<rparr> = Some s'"
    and tr: "after_loop u s' =
           Inr ([CapOpen (Location (ip_url u)), Subheader ''Detection Frame Detail Results''] @
                body @ [CapRelease (Location (ip_url u))] @ saved)"
    and props: "list_all is_loop_event body" "\<not> list_ex is_resource_event body"
      "\<not> list_ex is_loop_event saved" "\<not> list_ex is_resource_event saved"
    unfolding ip_camera_loop_def by blast
  from a run tr have "ip_camera_branch e u m =
           Some (Inr ([CapOpen (Location (ip_url u)),
                       Subheader ''Detection Frame Detail Results''] @
                      body @ [CapRelease (Location (ip_url u))] @ saved))"
    by (simp add: ip_camera_branch_def)
  with props show "\<exists>body saved. ip_camera_branch e u m =
           Some (Inr ([CapOpen (Location (ip_url u)),
                       Subheader ''Detection Frame Detail Results''] @
                      body @ [CapRelease (Location (ip_url u))] @ saved)) \<and>
         list_all is_loop_event body \<and> \<not> list_ex is_resource_event body \<and>
         \<not> list_ex is_loop_event saved \<and> \<not> list_ex is_resource_event saved"
    by blast
qed

lemma greedy_exits: "exits_at greedy \<lparr>src = sc, pos = 0\<rparr> (Suc (Suc 0))"
  by (simp add: exits_at_def cap_isOpened_def cap_read_def greedy_simps)

text \<open>
  The two-frame source with a video uploaded, both start buttons pressed and an IP
  camera URL entered: every loop exits after two frames, and each branch has the
  shape above.
\<close>

theorem C3_resources_released_after_loop_witness:
  "uploaded_video (sample_ui ''Upload Video'') = Some [4, 5, 6] \<and>
   exits_at two_frames \<lparr>src = Location (tempfile_name two_frames), pos = 0\<rparr> (Suc (Suc 0)) \<and>
   start_button_webcam (sample_ui ''Upload Video'') \<and>
   exits_at two_frames \<lparr>src = Camera 0, pos = 0\<rparr> (Suc (Suc 0)) \<and>
   start_button_ip (sample_ui ''Upload Video'') \<and> ip_url (sample_ui ''Upload Video'') \<noteq> [] \<and>
   exits_at two_frames \<lparr>src = Location (ip_url (sample_ui ''Upload Video'')), pos = 0\<rparr> (Suc (Suc 0)) \<and>
   (\<exists>body. upload_video_branch two_frames (sample_ui ''Upload Video'') 0 =
        Some ([TempWrite ''/tmp/tmpvideo'' [4, 5, 6], Video ''/tmp/tmpvideo'',
               CapOpen (Location ''/tmp/tmpvideo'')] @ body @
              [CapRelease (Location ''/tmp/tmpvideo''), Unlink ''/tmp/tmpvideo'']) \<and>
      list_all is_loop_event body \<and> \<not> list_ex is_resource_event body) \<and>
   (\<exists>body saved. webcam_branch two_frames (sample_ui ''Upload Video'') 0 =
        Some (Inr ([CapOpen (Camera 0), Subheader ''Detection Frame Detail Results''] @
                   body @ [CapRelease (Camera 0)] @ saved)) \<and>
      list_all is_loop_event body \<and> \<not> list_ex is_resource_event body \<and>
      \<not> list_ex is_loop_event saved \<and> \<not> list_ex is_resource_event saved) \<and>
   (\<exists>body saved. ip_camera_branch two_frames (sample_ui ''Upload Video'') 0 =
        Some (Inr ([CapOpen (Location ''rtsp://camera''),
                    Subheader ''Detection Frame Detail Results''] @
                   body @ [CapRelease (Location ''rtsp://camera'')] @ saved)) \<and>
      list_all is_loop_event body \<and> \<not> list_ex is_resource_event body \<and>
      \<not> list_ex is_loop_event saved \<and> \<not> list_ex is_resource_event saved)"
proof -
  have ui: "uploaded_video (sample_ui ''Upload Video'') = Some [4, 5, 6]"
    "start_button_webcam (sample_ui ''Upload Video'')"
    "start_button_ip (sample_ui ''Upload Video'')"
    "ip_url (sample_ui ''Upload Video'') = ''rtsp://camera''"
    by (simp_all add: sample_ui_def)
  show ?thesis
    using C3_resources_released_after_loop [of "sample_ui ''Upload Video''" "[4, 5, 6]" two_frames "Suc (Suc 0)" 0]
      two_frames_exits
    by (simp add: ui two_frames_simps)
qed

subsection \<open>The frames a camera branch keeps\<close>

lemma frames_read_0: "frames_read e c 0 = []"
  by (simp add: frames_read_def)

lemma frames_read_Suc:
  "frames_read e c (Suc n) =
     the (fst (cap_read e c)) # frames_read e (snd (cap_read e c)) n"
proof -
  have "[0..<Suc n] = 0 # map Suc [0..<n]"
    by (simp add: upt_conv_Cons map_Suc_upt del: upt_Suc)
  then show ?thesis
    by (simp add: frames_read_def comp_def del: upt_Suc)
qed

lemma reads_succeed_Suc:
  "reads_succeed e c (Suc n) \<longleftrightarrow>
     \<not> exits_at e c 0 \<and> reads_succeed e (snd (cap_read e c)) n"
proof
  assume a: "reads_succeed e c (Suc n)"
  then have "\<not> exits_at e c 0" by (simp add: reads_succeed_def)
  moreover have "\<not> exits_at e (snd (cap_read e c)) i" if "i < n" for i
    using a that exits_at_Suc [of e c i] by (simp add: reads_succeed_def)
  ultimately show "\<not> exits_at e c 0 \<and> reads_succeed e (snd (cap_read e c)) n"
    by (simp add: reads_succeed_def)
next
  assume a: "\<not> exits_at e c 0 \<and> reads_succeed e (snd (cap_read e c)) n"
  have "\<not> exits_at e c i" if "i < Suc n" for i
  proof (cases i)
    case 0
    with a show ?thesis by simp
  next
    case (Suc j)
    with that a show ?thesis by (simp add: reads_succeed_def exits_at_Suc)
  qed
  then show "reads_succeed e c (Suc n)" by (simp add: reads_succeed_def)
qed

lemma live_loop_frames:
  "reads_succeed e (live_cap s) n \<Longrightarrow> exits_at e (live_cap s) n \<Longrightarrow>
   \<exists>s'. live_loop wn cp e u m s = Some s' \<and>
        processed_frames s' =
          processed_frames s @ map (annotate e u) (frames_read e (live_cap s) n)"
proof (induction n arbitrary: s)
  case 0
  then show ?case
    by (cases "cap_isOpened e (live_cap s)")
       (auto simp: exits_at_def live_loop_closed live_loop_fail frames_read_0)
next
  case (Suc n)
  from Suc.prems(1) have now: "\<not> exits_at e (live_cap s) 0"
    and later: "reads_succeed e (snd (cap_read e (live_cap s))) n"
    by (simp_all add: reads_succeed_Suc)
  from now have opened: "cap_isOpened e (live_cap s)"
    and "fst (cap_read e (live_cap s)) \<noteq> None"
    by (simp_all add: exits_at_def)
  then obtain frame where frame: "fst (cap_read e (live_cap s)) = Some frame" by blast
  let ?t = "live_iteration cp e u m frame (snd (cap_read e (live_cap s))) s"
  from later have a: "reads_succeed e (live_cap ?t) n" by (simp add: live_iteration_cap)
  from Suc.prems(2) have b: "exits_at e (live_cap ?t) n"
    by (simp only: live_iteration_cap exits_at_Suc)
  from Suc.IH [OF a b] obtain s' where
    run: "live_loop wn cp e u m ?t = Some s'"
    and fr: "processed_frames s' =
          processed_frames ?t @ map (annotate e u) (frames_read e (live_cap ?t) n)"
    by blast
  from run live_loop_step [OF opened frame] have "live_loop wn cp e u m s = Some s'"
    by metis
  moreover from fr frame have "processed_frames s' =
          processed_frames s @ map (annotate e u) (frames_read e (live_cap s) (Suc n))"
    by (simp add: live_iteration_frames live_iteration_cap frames_read_Suc)
  ultimately show ?case by blast
qed

lemma live_branch_saved:
  assumes yes: "save_processed_video u = ''Yes''"
    and ok: "reads_succeed e \<lparr>src = sc, pos = 0\<rparr> n"
    and ex: "exits_at e \<lparr>src = sc, pos = 0\<rparr> n"
    and pos: "0 < n"
    and start: "filter is_writer_event start = []"
  shows "\<exists>s' tr.
           live_loop wn cp e u m
             \<lparr>live_cap = \<lparr>src = sc, pos = 0\<rparr>, processed_frames = [], shown = start\<rparr> = Some s' \<and>
           after_loop u s' = Inr tr \<and>
           filter is_writer_event tr =
             writer_events u (map (annotate e u) (frames_read e \<lparr>src = sc, pos = 0\<rparr> n))"
proof -
  let ?s0 = "\<lparr>live_cap = \<lparr>src = sc, pos = 0\<rparr>, processed_frames = [], shown = start\<rparr>"
  let ?fs = "map (annotate e u) (frames_read e \<lparr>src = sc, pos = 0\<rparr> n)"
  from ok ex have "reads_succeed e (live_cap ?s0) n" "exits_at e (live_cap ?s0) n" by simp_all
  from live_loop_frames [OF this, of wn cp u m]
  obtain s' where run: "live_loop wn cp e u m ?s0 = Some s'"
    and fr: "processed_frames s' = ?fs" by auto
  from pos have ne: "?fs \<noteq> []" by (simp add: frames_read_def)
  from live_loop_trace [OF run, of is_loop_event]
  obtain body where tr: "after_loop u s' =
           Inr (start @ body @ [CapRelease sc] @
                (if save_processed_video u = ''Yes'' \<and> processed_frames s' \<noteq> []
                 then writer_events u (processed_frames s') @
                      [Success (VideoSaved (result_video_path u))]
                 else []))" and body: "list_all is_loop_event body"
    by auto
  from tr yes fr ne have "after_loop u s' =
      Inr (start @ body @ [CapRelease sc] @
           (writer_events u ?fs @ [Success (VideoSaved (result_video_path u))]))"
    by simp
  moreover have "filter is_writer_event
      (start @ body @ [CapRelease sc] @
       (writer_events u ?fs @ [Success (VideoSaved (result_video_path u))])) =
      writer_events u ?fs"
    using start loop_events_no_writer [OF body] writer_events_filter [of u ?fs]
    by simp
  ultimately show ?thesis using run by auto
qed

text \<open>
  C7. In a camera branch whose loop processed \<open>n > 0\<close> frames before it exited and
  whose Save radio returns Yes, the writer events of the execution are exactly: the
  writer opened on the chosen path with fourcc \<open>mp4v\<close>, 20 frames per second and the
  width and height of the first annotated frame; one write for each annotated frame,
  in the order the frames were read; the release of the writer.
\<close>

theorem C7_saved_video_holds_every_frame:
  "(start_button_webcam u \<and> save_processed_video u = ''Yes'' \<and>
    reads_succeed e \<lparr>src = Camera 0, pos = 0\<rparr> n \<and>
    exits_at e \<lparr>src = Camera 0, pos = 0\<rparr> n \<and> 0 < n \<longrightarrow>
      (\<exists>tr. webcam_branch e u m = Some (Inr tr) \<and>
            filter is_writer_event tr =
              writer_events u
                (map (annotate e u) (frames_read e \<lparr>src = Camera 0, pos = 0\<rparr> n)))) \<and>
   (start_button_ip u \<and> ip_url u \<noteq> [] \<and> save_processed_video u = ''Yes'' \<and>
    reads_succeed e \<lparr>src = Location (ip_url u), pos = 0\<rparr> n \<and>
    exits_at e \<lparr>src = Location (ip_url u), pos = 0\<rparr> n \<and> 0 < n \<longrightarrow>
      (\<exists>tr. ip_camera_branch e u m = Some (Inr tr) \<and>
            filter is_writer_event tr =
              writer_events u
                (map (annotate e u) (frames_read e \<lparr>src = Location (ip_url u), pos = 0\<rparr> n))))"
proof (intro conjI impI)
  assume a: "start_button_webcam u \<and> save_processed_video u = ''Yes'' \<and>
    reads_succeed e \<lparr>src = Camera 0, pos = 0\<rparr> n \<and>
    exits_at e \<lparr>src = Camera 0, pos = 0\<rparr> n \<and> 0 < n"
  from live_branch_saved [of u e "Camera 0" n
      "[CapOpen (Camera 0), Subheader ''Detection Frame Detail Results'']"
      webcam_warning "''Webcam Detection''" m] a
  obtain s' tr where
    "webcam_loop e u m
       \<lparr>live_cap = \<lparr>src = Camera 0, pos = 0\<rparr>, processed_frames = [],
        shown = [CapOpen (Camera 0), Subheader ''Detection Frame Detail Results'']\<rparr> = Some s'"
    and "after_loop u s' = Inr tr"
    and w: "filter is_writer_event tr =
              writer_events u
                (map (annotate e u) (frames_read e \<lparr>src = Camera 0, pos = 0\<rparr> n))"
    unfolding webcam_loop_def by auto
  with a have "webcam_branch e u m = Some (Inr tr)"
    by (simp add: webcam_branch_def)
  with w show "\<exists>tr. webcam_branch e u m = Some (Inr tr) \<and>
            filter is_writer_event tr =
              writer_events u
                (map (annotate e u) (frames_read e \<lparr>src = Camera 0, pos = 0\<rparr> n))"
    by blast
next
  assume a: "start_button_ip u \<and> ip_url u \<noteq> [] \<and> save_processed_video u = ''Yes'' \<and>
    reads_succeed e \<lparr>src = Location (ip_url u), pos = 0\<rparr> n \<and>
    exits_at e \<lparr>src = Location (ip_url u), pos = 0\<rparr> n \<and> 0 < n"
  from live_branch_saved [of u e "Location (ip_url u)" n
      "[CapOpen (Location (ip_url u)), Subheader ''Detection Frame Detail Results'']"
      ip_camera_warning "''IP Camera Detection''" m] a
  obtain s' tr where
    "ip_camera_loop e u m
       \<lparr>live_cap = \<lparr>src = Location (ip_url u), pos = 0\<rparr>, processed_frames = [],
        shown = [CapOpen (Location (ip_url u)),
                 Subheader ''Detection Frame Detail Results'']\<rparr> = Some s'"
    and "after_loop u s' = Inr tr"
    and w: "filter is_writer_event tr =
              writer_events u
                (map (annotate e u) (frames_read e \<lparr>src = Location (ip_url u), pos = 0\<rparr> n))"
    unfolding ip_camera_loop_def by auto
  with a have "ip_camera_branch e u m = Some (Inr tr)"
    by (simp add: ip_camera_branch_def)
  with w show "\<exists>tr. ip_camera_branch e u m = Some (Inr tr) \<and>
            filter is_writer_event tr =
              writer_events u
                (map (annotate e u) (frames_read e \<lparr>src = Location (ip_url u), pos = 0\<rparr> n))"
    by blast
qed

lemma greedy_reads: "reads_succeed greedy \<lparr>src = sc, pos = 0\<rparr> (Suc (Suc 0))"
  by (simp add: reads_succeed_def exits_at_def cap_isOpened_def cap_read_def greedy_simps
      less_Suc_eq)

lemma greedy_frames:
  "map (annotate greedy two_boxes) (frames_read greedy \<lparr>src = sc, pos = 0\<rparr> (Suc (Suc 0))) =
     [sample_frame 0, sample_frame 1]"
  by (simp add: frames_read_def cap_read_def annotate_def greedy_simps)

text \<open>
  The detector that ignores its arguments on the two-frame source, with Save set to
  Yes: both camera branches write the two frames, in order, at 20 frames per second.
\<close>

theorem C7_saved_video_holds_every_frame_witness:
  "start_button_webcam two_boxes \<and> start_button_ip two_boxes \<and> ip_url two_boxes \<noteq> [] \<and>
   save_processed_video two_boxes = ''Yes'' \<and>
   reads_succeed greedy \<lparr>src = Camera 0, pos = 0\<rparr> (Suc (Suc 0)) \<and>
   exits_at greedy \<lparr>src = Camera 0, pos = 0\<rparr> (Suc (Suc 0)) \<and>
   reads_succeed greedy \<lparr>src = Location (ip_url two_boxes), pos = 0\<rparr> (Suc (Suc 0)) \<and>
   exits_at greedy \<lparr>src = Location (ip_url two_boxes), pos = 0\<rparr> (Suc (Suc 0)) \<and>
   filter is_writer_event (live_run (Camera 0) ''Webcam Detection'' webcam_warning) =
     writer_events two_boxes [sample_frame 0, sample_frame 1] \<and>
   filter is_writer_event
      (live_run (Location ''rtsp://camera'') ''IP Camera Detection'' ip_camera_warning) =
     writer_events two_boxes [sample_frame 0, sample_frame 1] \<and>
   writer_events two_boxes [sample_frame 0, sample_frame 1] =
     [WriterOpen ''result.mp4'' ''mp4v'' 20 640 480,
      WriterWrite (sample_frame 0), WriterWrite (sample_frame 1), WriterRelease]"
  using C7_saved_video_holds_every_frame [of two_boxes greedy "Suc (Suc 0)" 0] greedy_reads greedy_exits
  by (simp add: two_boxes_simps webcam_greedy_run ip_greedy_run greedy_frames)
     (simp add: writer_events_def two_boxes_simps sample_frame_def)

subsection \<open>What every frame reports\<close>

lemma count_within_iteration:
  assumes "0 \<le> MAX_BOXES_TO_DRAW u" and "list_all (count_within u) (shown s)"
  shows "list_all (count_within u) (shown (live_iteration cp e u m frame c s))"
proof -
  from live_iteration_emits [of "count_within u" m u cp e frame c s] assms(1)
  obtain evs where "shown (live_iteration cp e u m frame c s) = shown s @ evs"
    and "list_all (count_within u) evs"
    by (auto simp: length_slice_to)
  with assms(2) show ?thesis by simp
qed

lemma count_within_branch:
  assumes "0 \<le> MAX_BOXES_TO_DRAW u"
    and run: "live_loop wn cp e u m
                \<lparr>live_cap = \<lparr>src = sc, pos = 0\<rparr>, processed_frames = [],
                 shown = [CapOpen sc, Subheader h]\<rparr> = Some s'"
    and tr: "after_loop u s' = Inr tr"
  shows "list_all (count_within u) tr"
proof -
  from live_loop_trace [OF run, of "count_within u"] assms(1)
  obtain body where "after_loop u s' =
           Inr ([CapOpen sc, Subheader h] @ body @ [CapRelease sc] @
                (if save_processed_video u = ''Yes'' \<and> processed_frames s' \<noteq> []
                 then writer_events u (processed_frames s') @
                      [Success (VideoSaved (result_video_path u))]
                 else []))" and "list_all (count_within u) body"
    by (auto simp: length_slice_to)
  with tr show ?thesis
    by (auto simp: writer_events_def list_all_iff)
qed

text \<open>
  C9. For a bound \<open>MAX_BOXES_TO_DRAW\<close> that is not negative (the number widget
  returns at least 1), every per-frame line of the webcam loop and of the IP camera
  loop reports at most \<open>MAX_BOXES_TO_DRAW\<close> objects, whatever the detector returns:
  an iteration keeps the property of the events emitted so far, and every completed
  execution of either camera branch has it.
\<close>

theorem C9_detection_count_within_max_boxes:
  assumes "0 \<le> MAX_BOXES_TO_DRAW u"
  shows "(list_all (count_within u) (shown s) \<longrightarrow>
            list_all (count_within u) (shown (live_iteration cp e u m frame c s))) \<and>
         (webcam_branch e u m = Some (Inr tr) \<longrightarrow> list_all (count_within u) tr) \<and>
         (ip_camera_branch e u m = Some (Inr tr') \<longrightarrow> list_all (count_within u) tr')"
proof (intro conjI impI)
  assume "list_all (count_within u) (shown s)"
  with assms show "list_all (count_within u) (shown (live_iteration cp e u m frame c s))"
    by (rule count_within_iteration)
next
  assume a: "webcam_branch e u m = Some (Inr tr)"
  show "list_all (count_within u) tr"
  proof (cases "start_button_webcam u")
    case False
    with a show ?thesis by (simp add: webcam_branch_def)
  next
    case True
    with a obtain s' where
      "live_loop webcam_warning ''Webcam Detection'' e u m
         \<lparr>live_cap = \<lparr>src = Camera 0, pos = 0\<rparr>, processed_frames = [],
          shown = [CapOpen (Camera 0), Subheader ''Detection Frame Detail Results'']\<rparr> = Some s'"
      and "after_loop u s' = Inr tr"
      by (auto simp: webcam_branch_def webcam_loop_def split: option.splits)
    with assms show ?thesis by (rule count_within_branch)
  qed
next
  assume a: "ip_camera_branch e u m = Some (Inr tr')"
  show "list_all (count_within u) tr'"
  proof (cases "start_button_ip u \<and> ip_url u \<noteq> []")
    case False
    with a show ?thesis by (auto simp: ip_camera_branch_def split: if_splits)
  next
    case True
    with a obtain s' where
      "live_loop ip_camera_warning ''IP Camera Detection'' e u m
         \<lparr>live_cap = \<lparr>src = Location (ip_url u), pos = 0\<rparr>, processed_frames = [],
          shown = [CapOpen (Location (ip_url u)),
                   Subheader ''Detection Frame Detail Results'']\<rparr> = Some s'"
      and "after_loop u s' = Inr tr'"
      by (auto simp: ip_camera_branch_def ip_camera_loop_def split: option.splits)
    with assms show ?thesis by (rule count_within_branch)
  qed
qed

text \<open>
  A detector that returns three boxes whatever it is asked, with two boxes allowed:
  the line of the frame reports two objects, in one iteration and in both complete
  camera branches.
\<close>

theorem C9_detection_count_within_max_boxes_witness:
  "0 \<le> MAX_BOXES_TO_DRAW two_boxes \<and>
   length (boxes (predict greedy (sample_frame 0) (MIN_SCORE_THRES two_boxes)
                    (MAX_BOXES_TO_DRAW two_boxes))) = 3 \<and>
   list_all (count_within two_boxes) (shown live_start) \<and>
   list_all (count_within two_boxes)
     (shown (live_iteration ''Webcam Detection'' greedy two_boxes 0 (sample_frame 0)
               \<lparr>src = Camera 0, pos = 1\<rparr> live_start)) \<and>
   shown (live_iteration ''Webcam Detection'' greedy two_boxes 0 (sample_frame 0)
               \<lparr>src = Camera 0, pos = 1\<rparr> live_start) =
     [ModelCall 0 (sample_frame 0) (2 / 5) 2,
      Placeholder (reverse_channels (sample_frame 0)) ''Webcam Detection'',
      Write (LiveFrame 0 480 640 2 ''gun, knife'' 0 0 0)] \<and>
   list_all (count_within two_boxes) (live_run (Camera 0) ''Webcam Detection'' webcam_warning) \<and>
   list_all (count_within two_boxes)
     (live_run (Location ''rtsp://camera'') ''IP Camera Detection'' ip_camera_warning)"
proof -
  have h: "0 \<le> MAX_BOXES_TO_DRAW two_boxes" by (simp add: two_boxes_simps)
  have s: "shown live_start = []" by (simp add: live_start_def)
  show ?thesis
    using h C9_detection_count_within_max_boxes [OF h, of live_start "''Webcam Detection''" greedy 0 "sample_frame 0"
        "\<lparr>src = Camera 0, pos = 1\<rparr>"
        "live_run (Camera 0) ''Webcam Detection'' webcam_warning"
        "live_run (Location ''rtsp://camera'') ''IP Camera Detection'' ip_camera_warning"]
    by (simp add: s webcam_greedy_run ip_greedy_run greedy_simps sample_boxes_def
        greedy_iteration live_start_def)
qed

subsection \<open>What the detector is called with\<close>

lemma passes_settings_branch:
  assumes run: "live_loop wn cp e u m
                \<lparr>live_cap = \<lparr>src = sc, pos = 0\<rparr>, processed_frames = [],
                 shown = [CapOpen sc, Subheader h]\<rparr> = Some s'"
    and tr: "after_loop u s' = Inr tr"
  shows "list_all (passes_settings u m) tr"
proof -
  from live_loop_trace [OF run, of "passes_settings u m"]
  obtain body where "after_loop u s' =
           Inr ([CapOpen sc, Subheader h] @ body @ [CapRelease sc] @
                (if save_processed_video u = ''Yes'' \<and> processed_frames s' \<noteq> []
                 then writer_events u (processed_frames s') @
                      [Success (VideoSaved (result_video_path u))]
                 else []))" and "list_all (passes_settings u m) body"
    by auto
  with tr show ?thesis
    by (auto simp: writer_events_def list_all_iff)
qed

lemma passes_settings_webcam:
  assumes a: "webcam_branch e u m = Some (Inr tr)"
  shows "list_all (passes_settings u m) tr"
proof (cases "start_button_webcam u")
  case False
  with a show ?thesis by (simp add: webcam_branch_def)
next
  case True
  with a obtain s' where
    "live_loop webcam_warning ''Webcam Detection'' e u m
       \<lparr>live_cap = \<lparr>src = Camera 0, pos = 0\<rparr>, processed_frames = [],
        shown = [CapOpen (Camera 0), Subheader ''Detection Frame Detail Results'']\<rparr> = Some s'"
    and "after_loop u s' = Inr tr"
    by (auto simp: webcam_branch_def webcam_loop_def split: option.splits)
  then show ?thesis by (rule passes_settings_branch)
qed

lemma passes_settings_ip:
  assumes a: "ip_camera_branch e u m = Some (Inr tr)"
  shows "list_all (passes_settings u m) tr"
proof (cases "start_button_ip u \<and> ip_url u \<noteq> []")
  case False
  with a show ?thesis by (auto simp: ip_camera_branch_def split: if_splits)
next
  case True
  with a obtain s' where
    "live_loop ip_camera_warning ''IP Camera Detection'' e u m
       \<lparr>live_cap = \<lparr>src = Location (ip_url u), pos = 0\<rparr>, processed_frames = [],
        shown = [CapOpen (Location (ip_url u)),
                 Subheader ''Detection Frame Detail Results'']\<rparr> = Some s'"
    and "after_loop u s' = Inr tr"
    by (auto simp: ip_camera_branch_def ip_camera_loop_def split: option.splits)
  then show ?thesis by (rule passes_settings_branch)
qed

lemma passes_settings_upload_video:
  assumes a: "upload_video_branch e u m = Some tr"
  shows "list_all (passes_settings u m) tr"
proof (cases "uploaded_video u")
  case None
  with a show ?thesis by (simp add: upload_video_branch_def)
next
  case (Some content)
  let ?s0 = "\<lparr>cap = \<lparr>src = Location (tempfile_name e), pos = 0\<rparr>, time_calls = 1,
             last_snapshot_time = clock e 0, snapshot_button = take_snapshot u,
             out = [TempWrite (tempfile_name e) content, Video (tempfile_name e),
                    CapOpen (Location (tempfile_name e))]\<rparr>"
  from a Some obtain s' where run: "upload_video_loop e u m ?s0 = Some s'"
    and tr: "tr = out s' @ [CapRelease (src (cap s')), Unlink (tempfile_name e)]"
    by (auto simp: upload_video_branch_def Let_def split: option.splits)
  from upload_loop_emits [OF run, of "passes_settings u m"]
  obtain body where "out s' = out ?s0 @ body" and "list_all (passes_settings u m) body"
    by auto
  with tr show ?thesis by simp
qed

lemma passes_settings_upload_image:
  assumes a: "upload_image_branch e u m = Inr tr"
  shows "list_all (passes_settings u m) tr"
  using a
  by (auto simp: upload_image_branch_def process_image_def call_model_def display_results_def
      Let_def split: option.splits sum.splits if_splits)

lemma passes_settings_upload_iteration:
  assumes "list_all (passes_settings u m) (out s)"
  shows "list_all (passes_settings u m) (out (upload_iteration e u m frame c s))"
proof -
  from upload_iteration_emits [of "passes_settings u m" m u e frame c s]
  obtain evs where "out (upload_iteration e u m frame c s) = out s @ evs"
    and "list_all (passes_settings u m) evs"
    by auto
  with assms show ?thesis by simp
qed

lemma passes_settings_live_iteration:
  assumes "list_all (passes_settings u m) (shown s)"
  shows "list_all (passes_settings u m) (shown (live_iteration cp e u m frame c s))"
proof -
  from live_iteration_emits [of "passes_settings u m" m u cp e frame c s]
  obtain evs where "shown (live_iteration cp e u m frame c s) = shown s @ evs"
    and "list_all (passes_settings u m) evs"
    by auto
  with assms show ?thesis by simp
qed

lemma contract_result:
  assumes "detector_contract e"
  shows "(\<forall>b \<in> set (boxes (predict e x c k)). c \<le> score b) \<and>
         (0 \<le> k \<longrightarrow> int (length (boxes (predict e x c k))) \<le> k)"
  using assms unfolding detector_contract_def by blast

text \<open>
  C4. Every detector call of the script passes the threshold and the bound of the
  sidebar unchanged, as \<open>conf\<close> and \<open>max_det\<close>, on the model object of the
  execution: in \<open>process_image\<close> and \<open>process_video_frame\<close>, in one iteration of
  either kind of loop, and in every completed execution of each of the four
  branches. Hence, with a detector that keeps no box scored below \<open>conf\<close> and no
  more than \<open>max_det\<close> boxes, every box the script gets is scored at least
  \<open>MIN_SCORE_THRES\<close> and there are at most \<open>MAX_BOXES_TO_DRAW\<close> of them.
\<close>

theorem C4_settings_passed_unchanged:
  "process_image e u m x =
     (predict e x (MIN_SCORE_THRES u) (MAX_BOXES_TO_DRAW u),
      [ModelCall m x (MIN_SCORE_THRES u) (MAX_BOXES_TO_DRAW u)]) \<and>
   process_video_frame e u m x =
     (predict e x (MIN_SCORE_THRES u) (MAX_BOXES_TO_DRAW u),
      [ModelCall m x (MIN_SCORE_THRES u) (MAX_BOXES_TO_DRAW u)]) \<and>
   (list_all (passes_settings u m) (out s) \<longrightarrow>
      list_all (passes_settings u m) (out (upload_iteration e u m x c s))) \<and>
   (list_all (passes_settings u m) (shown t) \<longrightarrow>
      list_all (passes_settings u m) (shown (live_iteration cp e u m x c t))) \<and>
   (upload_image_branch e u m = Inr tr1 \<longrightarrow> list_all (passes_settings u m) tr1) \<and>
   (upload_video_branch e u m = Some tr2 \<longrightarrow> list_all (passes_settings u m) tr2) \<and>
   (webcam_branch e u m = Some (Inr tr3) \<longrightarrow> list_all (passes_settings u m) tr3) \<and>
   (ip_camera_branch e u m = Some (Inr tr4) \<longrightarrow> list_all (passes_settings u m) tr4) \<and>
   (detector_contract e \<longrightarrow>
      (\<forall>b \<in> set (boxes (fst (process_image e u m x))). MIN_SCORE_THRES u \<le> score b) \<and>
      (\<forall>b \<in> set (boxes (fst (process_video_frame e u m x))). MIN_SCORE_THRES u \<le> score b) \<and>
      (0 \<le> MAX_BOXES_TO_DRAW u \<longrightarrow>
         int (length (boxes (fst (process_image e u m x)))) \<le> MAX_BOXES_TO_DRAW u \<and>
         int (length (boxes (fst (process_video_frame e u m x)))) \<le> MAX_BOXES_TO_DRAW u))"
proof -
  have calls: "process_image e u m x =
     (predict e x (MIN_SCORE_THRES u) (MAX_BOXES_TO_DRAW u),
      [ModelCall m x (MIN_SCORE_THRES u) (MAX_BOXES_TO_DRAW u)])"
    "process_video_frame e u m x =
     (predict e x (MIN_SCORE_THRES u) (MAX_BOXES_TO_DRAW u),
      [ModelCall m x (MIN_SCORE_THRES u) (MAX_BOXES_TO_DRAW u)])"
    by (simp_all add: process_image_def process_video_frame_def call_model_def)
  have contract: "detector_contract e \<longrightarrow>
      (\<forall>b \<in> set (boxes (fst (process_image e u m x))). MIN_SCORE_THRES u \<le> score b) \<and>
      (\<forall>b \<in> set (boxes (fst (process_video_frame e u m x))). MIN_SCORE_THRES u \<le> score b) \<and>
      (0 \<le> MAX_BOXES_TO_DRAW u \<longrightarrow>
         int (length (boxes (fst (process_image e u m x)))) \<le> MAX_BOXES_TO_DRAW u \<and>
         int (length (boxes (fst (process_video_frame e u m x)))) \<le> MAX_BOXES_TO_DRAW u)"
    using contract_result [of e x "MIN_SCORE_THRES u" "MAX_BOXES_TO_DRAW u"]
    by (simp add: calls)
  have iterations:
    "list_all (passes_settings u m) (out s) \<longrightarrow>
       list_all (passes_settings u m) (out (upload_iteration e u m x c s))"
    "list_all (passes_settings u m) (shown t) \<longrightarrow>
       list_all (passes_settings u m) (shown (live_iteration cp e u m x c t))"
    by (simp_all add: passes_settings_upload_iteration passes_settings_live_iteration)
  have branches:
    "upload_image_branch e u m = Inr tr1 \<longrightarrow> list_all (passes_settings u m) tr1"
    "upload_video_branch e u m = Some tr2 \<longrightarrow> list_all (passes_settings u m) tr2"
    "webcam_branch e u m = Some (Inr tr3) \<longrightarrow> list_all (passes_settings u m) tr3"
    "ip_camera_branch e u m = Some (Inr tr4) \<longrightarrow> list_all (passes_settings u m) tr4"
    using passes_settings_upload_image [of e u m tr1] passes_settings_upload_video [of e u m tr2]
      passes_settings_webcam [of e u m tr3] passes_settings_ip [of e u m tr4]
    by blast+
  from calls iterations branches contract show ?thesis
    by (intro conjI)
qed

lemma two_frames_contract: "detector_contract two_frames"
proof -
  have "c \<le> score b" if "b \<in> set (boxes (sample_predict x c k))" for x c k b
  proof -
    from that have "b \<in> set (filter (\<lambda>b. c \<le> score b) sample_boxes)"
      by (auto simp: sample_predict_def dest: in_set_takeD)
    then show ?thesis by simp
  qed
  moreover have "int (length (boxes (sample_predict x c k))) \<le> k" if "0 \<le> k" for x c k
    using that by (simp add: sample_predict_def)
  ultimately show ?thesis by (simp add: detector_contract_def two_frames_simps)
qed

text \<open>
  The sample detector, which keeps the contract, on the two uploads, and the detector
  that ignores its arguments on the two camera branches: every call carries the
  threshold and the bound of the sidebar.
\<close>

theorem C4_settings_passed_unchanged_witness:
  "detector_contract two_frames \<and>
   0 \<le> MAX_BOXES_TO_DRAW (sample_ui ''Upload Image'') \<and>
   list_all (passes_settings (sample_ui ''Upload Image'') 0) (out upload_start) \<and>
   list_all (passes_settings two_boxes 0) (shown live_start) \<and>
   upload_image_branch two_frames (sample_ui ''Upload Image'') 0 = Inr image_run \<and>
   upload_video_branch two_frames (sample_ui ''Upload Image'') 0 = Some upload_run \<and>
   webcam_branch greedy two_boxes 0 =
     Some (Inr (live_run (Camera 0) ''Webcam Detection'' webcam_warning)) \<and>
   ip_camera_branch greedy two_boxes 0 =
     Some (Inr (live_run (Location ''rtsp://camera'') ''IP Camera Detection''
                  ip_camera_warning)) \<and>
   process_image two_frames (sample_ui ''Upload Image'') 0 (sample_frame 3) =
     (sample_predict (sample_frame 3) (2 / 5) 5, [ModelCall 0 (sample_frame 3) (2 / 5) 5]) \<and>
   list_all (passes_settings (sample_ui ''Upload Image'') 0)
     (out (upload_iteration two_frames (sample_ui ''Upload Image'') 0 (sample_frame 3)
             \<lparr>src = Camera 0, pos = 1\<rparr> upload_start)) \<and>
   list_all (passes_settings two_boxes 0)
     (shown (live_iteration ''Webcam Detection'' greedy two_boxes 0 (sample_frame 3)
               \<lparr>src = Camera 0, pos = 1\<rparr> live_start)) \<and>
   list_all (passes_settings (sample_ui ''Upload Image'') 0) image_run \<and>
   list_all (passes_settings (sample_ui ''Upload Image'') 0) upload_run \<and>
   list_all (passes_settings two_boxes 0)
     (live_run (Camera 0) ''Webcam Detection'' webcam_warning) \<and>
   list_all (passes_settings two_boxes 0)
     (live_run (Location ''rtsp://camera'') ''IP Camera Detection'' ip_camera_warning) \<and>
   list_all (\<lambda>b. 2 / 5 \<le> score b)
     (boxes (fst (process_image two_frames (sample_ui ''Upload Image'') 0 (sample_frame 3)))) \<and>
   int (length (boxes (fst (process_image two_frames (sample_ui ''Upload Image'') 0
                              (sample_frame 3))))) \<le> 5"
  using C4_settings_passed_unchanged [of two_frames "sample_ui ''Upload Image''" 0 "sample_frame 3" upload_start
      "\<lparr>src = Camera 0, pos = 1\<rparr>" live_start "''Webcam Detection''"
      image_run upload_run "[]" "[]"]
    C4_settings_passed_unchanged [of greedy two_boxes 0 "sample_frame 3" upload_start
      "\<lparr>src = Camera 0, pos = 1\<rparr>" live_start "''Webcam Detection''" "[]" "[]"
      "live_run (Camera 0) ''Webcam Detection'' webcam_warning"
      "live_run (Location ''rtsp://camera'') ''IP Camera Detection'' ip_camera_warning"]
    two_frames_contract
  by (simp add: upload_image_run upload_video_run webcam_greedy_run ip_greedy_run
      sample_ui_simps two_frames_simps upload_start_def live_start_def)
     (simp add: sample_predict_boxes list_all_iff)

end
